theory Spec2Isabelle
  imports Complex_Main "HOL-Library.Word"
begin

unbundle bit_operations_syntax

section \<open>Numbers\<close>

text \<open>
  A number of \<^verbatim>\<open>game.js\<close> is an IEEE double: a finite value, an infinity or NaN
  (\<open>jsnum\<close>). Finite values are reals and the integer-valued ones (table entries, chunk
  coordinates, loop counters) integers. Where the program's arithmetic can leave the
  finite numbers it is modelled on \<open>jsnum\<close>: a result whose magnitude reaches
  \<open>2\<^sup>1\<^sup>0\<^sup>2\<^sup>4 - 2\<^sup>9\<^sup>7\<^sup>0\<close> overflows to an infinity, infinities and NaN propagate as in
  IEEE 754, and a quotient of magnitude at most \<open>2\<^sup>-\<^sup>1\<^sup>0\<^sup>7\<^sup>5\<close> underflows to zero.
  Rounding of a finite result to the nearest double, and the sign of zero, are not
  modelled.
\<close>

datatype jsnum = Fin real | PInf | NInf | NaN

definition dbl_overflow :: real where
  "dbl_overflow = 2 ^ 1024 - 2 ^ 970"

definition dbl_underflow :: real where
  "dbl_underflow = 1 / 2 ^ 1075"

text \<open>The double for an exact finite result: an infinity when it overflows.\<close>

definition js_fin :: "real \<Rightarrow> jsnum" where
  "js_fin r =
     (if dbl_overflow \<le> r then PInf else if r \<le> - dbl_overflow then NInf else Fin r)"

text \<open>\<^verbatim>\<open>a + b\<close>: NaN propagates and \<open>\<infinity> + (-\<infinity>)\<close> is NaN.\<close>

fun js_add :: "jsnum \<Rightarrow> jsnum \<Rightarrow> jsnum" where
  "js_add (Fin a) (Fin b) = js_fin (a + b)"
| "js_add NaN b = NaN"
| "js_add a NaN = NaN"
| "js_add PInf NInf = NaN"
| "js_add NInf PInf = NaN"
| "js_add PInf b = PInf"
| "js_add NInf b = NInf"
| "js_add (Fin a) b = b"

text \<open>\<^verbatim>\<open>a * b\<close>: NaN propagates and \<open>0 * \<infinity>\<close> is NaN.\<close>

definition inf_times :: "bool \<Rightarrow> real \<Rightarrow> jsnum" where
  "inf_times positive a =
     (if a = 0 then NaN else if (0 < a) = positive then PInf else NInf)"

fun js_mul :: "jsnum \<Rightarrow> jsnum \<Rightarrow> jsnum" where
  "js_mul (Fin a) (Fin b) = js_fin (a * b)"
| "js_mul NaN b = NaN"
| "js_mul a NaN = NaN"
| "js_mul PInf (Fin b) = inf_times True b"
| "js_mul NInf (Fin b) = inf_times False b"
| "js_mul (Fin a) PInf = inf_times True a"
| "js_mul (Fin a) NInf = inf_times False a"
| "js_mul PInf PInf = PInf"
| "js_mul NInf NInf = PInf"
| "js_mul PInf NInf = NInf"
| "js_mul NInf PInf = NInf"

text \<open>
  \<^verbatim>\<open>a / b\<close>: a finite value over zero is an infinity or NaN, a finite value over an
  infinity is zero, and \<open>\<infinity> / \<infinity>\<close> is NaN.
\<close>

fun js_div :: "jsnum \<Rightarrow> jsnum \<Rightarrow> jsnum" where
  "js_div (Fin a) (Fin b) =
     (if b = 0 then (if a = 0 then NaN else if 0 < a then PInf else NInf)
      else js_fin (a / b))"
| "js_div NaN b = NaN"
| "js_div a NaN = NaN"
| "js_div (Fin a) b = Fin 0"
| "js_div PInf (Fin b) = (if 0 \<le> b then PInf else NInf)"
| "js_div NInf (Fin b) = (if 0 \<le> b then NInf else PInf)"
| "js_div a b = NaN"

text \<open>
  \<^verbatim>\<open>x / n\<close> for a finite \<open>x\<close> and a non-zero integer \<open>n\<close>: the quotient cannot overflow;
  it underflows to zero when it is too small for the smallest double.
\<close>

definition js_quot :: "real \<Rightarrow> int \<Rightarrow> real" where
  "js_quot x n = (if \<bar>x / of_int n\<bar> \<le> dbl_underflow then 0 else x / of_int n)"

text \<open>\<^verbatim>\<open>(value + 1) / 2\<close> on a number that may be infinite or NaN.\<close>

fun js_norm :: "jsnum \<Rightarrow> jsnum" where
  "js_norm (Fin v) = Fin ((v + 1) / 2)"
| "js_norm PInf = PInf"
| "js_norm NInf = NInf"
| "js_norm NaN = NaN"

text \<open>\<^verbatim>\<open>a < c\<close> and \<^verbatim>\<open>a >= c\<close> against a finite constant; every comparison with NaN is false.\<close>

fun js_lt :: "jsnum \<Rightarrow> real \<Rightarrow> bool" where
  "js_lt (Fin a) c = (a < c)"
| "js_lt PInf c = False"
| "js_lt NInf c = True"
| "js_lt NaN c = False"

fun js_ge :: "jsnum \<Rightarrow> real \<Rightarrow> bool" where
  "js_ge (Fin a) c = (c \<le> a)"
| "js_ge PInf c = True"
| "js_ge NInf c = False"
| "js_ge NaN c = False"

text \<open>
  \<^verbatim>\<open>a & b\<close> on integer-valued numbers: both operands are converted to 32-bit
  two's complement (ToInt32) and the bits are combined.
\<close>

definition to_int32 :: "int \<Rightarrow> int" where
  "to_int32 k = sint (word_of_int k :: 32 word)"

definition js_band :: "int \<Rightarrow> int \<Rightarrow> int" where
  "js_band a b = to_int32 a AND to_int32 b"

text \<open>
  \<^verbatim>\<open>a % b\<close> on integers: the remainder of the division that truncates towards zero,
  so the result has the sign of \<open>a\<close>.
\<close>

definition js_rem :: "int \<Rightarrow> int \<Rightarrow> int" where
  "js_rem a b = sgn a * (\<bar>a\<bar> mod \<bar>b\<bar>)"

section \<open>Interpolation\<close>

definition lerp :: "real \<Rightarrow> real \<Rightarrow> real \<Rightarrow> real" where
  "lerp t a b = a + t * (b - a)"

section \<open>ImprovedNoise\<close>

text \<open>
  The constructor draws 256 numbers with \<^verbatim>\<open>Math.random()\<close>; \<open>rs\<close> is the list of the
  values those 256 calls return, in order, each in \<open>[0, 1)\<close>. The table is the list of
  \<^verbatim>\<open>Math.floor(r * 256)\<close> followed by a copy of itself.
\<close>

definition ImprovedNoise :: "real list \<Rightarrow> int list" where
  "ImprovedNoise rs = (let p = map (\<lambda>r. \<lfloor>r * 256\<rfloor>) rs in p @ p)"

definition fade :: "real \<Rightarrow> real" where
  "fade t = t * t * t * (t * (t * 6 - 15) + 10)"

text \<open>
  \<^verbatim>\<open>p[i]\<close>: a read outside the array gives \<^verbatim>\<open>undefined\<close> (\<open>None\<close>). An index that is
  itself not a number (\<open>None\<close>, from arithmetic on \<^verbatim>\<open>undefined\<close>) also reads \<^verbatim>\<open>undefined\<close>.
\<close>

definition p_at :: "int list \<Rightarrow> int option \<Rightarrow> int option" where
  "p_at p i =
     (case i of None \<Rightarrow> None
      | Some k \<Rightarrow> if 0 \<le> k \<and> k < int (length p) then Some (p ! nat k) else None)"

text \<open>\<^verbatim>\<open>a + n\<close> where \<open>a\<close> may be \<^verbatim>\<open>undefined\<close> or NaN: the sum is then NaN (\<open>None\<close>).\<close>

definition js_plus :: "int option \<Rightarrow> int \<Rightarrow> int option" where
  "js_plus a n = (case a of None \<Rightarrow> None | Some k \<Rightarrow> Some (k + n))"

text \<open>\<^verbatim>\<open>grad(hash, x, y)\<close>; \<^verbatim>\<open>undefined & 3\<close> is 0.\<close>

definition grad :: "int option \<Rightarrow> real \<Rightarrow> real \<Rightarrow> real" where
  "grad hash x y =
     (let h = (case hash of None \<Rightarrow> 0 | Some k \<Rightarrow> js_band k 3);
          u = (if h < 2 then x else y);
          v = (if h < 2 then y else x)
      in (if js_band h 1 = 0 then u else - u) + (if js_band h 2 = 0 then v else - v))"

text \<open>The lattice cell and the table indices that \<^verbatim>\<open>noise(x, y)\<close> computes.\<close>

definition noise_X :: "real \<Rightarrow> int" where
  "noise_X x = js_band \<lfloor>x\<rfloor> 255"

definition noise_A :: "int list \<Rightarrow> real \<Rightarrow> real \<Rightarrow> int option" where
  "noise_A p x y = js_plus (p_at p (Some (noise_X x))) (noise_X y)"

definition noise_B :: "int list \<Rightarrow> real \<Rightarrow> real \<Rightarrow> int option" where
  "noise_B p x y = js_plus (p_at p (Some (noise_X x + 1))) (noise_X y)"

definition noise :: "int list \<Rightarrow> real \<Rightarrow> real \<Rightarrow> real" where
  "noise p x y =
     (let A = noise_A p x y;
          B = noise_B p x y;
          x' = x - of_int \<lfloor>x\<rfloor>;
          y' = y - of_int \<lfloor>y\<rfloor>;
          u = fade x';
          v = fade y'
      in lerp v
           (lerp u (grad (p_at p A) x' y') (grad (p_at p B) (x' - 1) y'))
           (lerp u (grad (p_at p (js_plus A 1)) x' (y' - 1))
                   (grad (p_at p (js_plus B 1)) (x' - 1) (y' - 1))))"

text \<open>Every table read of one \<^verbatim>\<open>noise(x, y)\<close> call, in program order.\<close>

definition noise_reads :: "int list \<Rightarrow> real \<Rightarrow> real \<Rightarrow> int option list" where
  "noise_reads p x y =
     [Some (noise_X x), Some (noise_X x + 1),
      noise_A p x y, noise_B p x y,
      js_plus (noise_A p x y) 1, js_plus (noise_B p x y) 1]"

text \<open>
  \<^verbatim>\<open>noise(x, y)\<close> on any double. With finite arguments every intermediate value is small
  and the result is the one above. With an infinite or NaN argument
  \<^verbatim>\<open>x -= Math.floor(x)\<close> or \<^verbatim>\<open>y -= Math.floor(y)\<close> is NaN, so is its \<^verbatim>\<open>fade\<close>, the weight of
  an interpolation that every term of the result passes through, and the result is NaN.
\<close>

fun js_noise :: "int list \<Rightarrow> jsnum \<Rightarrow> jsnum \<Rightarrow> jsnum" where
  "js_noise p (Fin x) (Fin y) = Fin (noise p x y)"
| "js_noise p x y = NaN"

section \<open>fbm\<close>

text \<open>
  The \<^verbatim>\<open>noise\<close> argument of \<^verbatim>\<open>fbm\<close> is any object with a \<^verbatim>\<open>noise(x, y)\<close> method; the
  model takes that method, \<open>nz\<close>. The loop carries \<^verbatim>\<open>value\<close>, \<^verbatim>\<open>amplitude\<close>,
  \<^verbatim>\<open>frequency\<close> and \<^verbatim>\<open>maxValue\<close> and returns the two accumulators. \<open>lacunarity\<close>
  and \<open>gain\<close> are finite numbers; the four loop variables may overflow.
\<close>

function fbm_loop ::
  "(jsnum \<Rightarrow> jsnum \<Rightarrow> jsnum) \<Rightarrow> jsnum \<Rightarrow> jsnum \<Rightarrow> int \<Rightarrow> real \<Rightarrow> real \<Rightarrow>
   int \<Rightarrow> jsnum \<Rightarrow> jsnum \<Rightarrow> jsnum \<Rightarrow> jsnum \<Rightarrow> jsnum \<times> jsnum" where
  "fbm_loop nz x y octaves lacunarity gain i val amplitude frequency maxValue =
     (if i < octaves
      then fbm_loop nz x y octaves lacunarity gain (i + 1)
             (js_add val (js_mul (nz (js_mul x frequency) (js_mul y frequency)) amplitude))
             (js_mul amplitude (Fin gain)) (js_mul frequency (Fin lacunarity))
             (js_add maxValue amplitude)
      else (val, maxValue))"
  by pat_completeness auto
termination
  by (relation "measure (\<lambda>(nz, x, y, octaves, lacunarity, gain, i, rest). nat (octaves - i))") auto

declare fbm_loop.simps [simp del]

definition fbm ::
  "jsnum \<Rightarrow> jsnum \<Rightarrow> (jsnum \<Rightarrow> jsnum \<Rightarrow> jsnum) \<Rightarrow> int \<Rightarrow> real \<Rightarrow> real \<Rightarrow> jsnum" where
  "fbm x y nz octaves lacunarity gain =
     (case fbm_loop nz x y octaves lacunarity gain 0 (Fin 0) (Fin 1) (Fin 1) (Fin 0) of
        (val, maxValue) \<Rightarrow> js_div val maxValue)"

text \<open>
  The values of \<^verbatim>\<open>frequency\<close> and \<^verbatim>\<open>amplitude\<close> at the start of iteration \<open>k\<close>, and the
  noise sample that iteration takes.
\<close>

fun frequency_at :: "real \<Rightarrow> nat \<Rightarrow> jsnum" where
  "frequency_at lacunarity 0 = Fin 1"
| "frequency_at lacunarity (Suc k) = js_mul (frequency_at lacunarity k) (Fin lacunarity)"

fun amplitude_at :: "real \<Rightarrow> nat \<Rightarrow> jsnum" where
  "amplitude_at gain 0 = Fin 1"
| "amplitude_at gain (Suc k) = js_mul (amplitude_at gain k) (Fin gain)"

definition sample_at ::
  "(jsnum \<Rightarrow> jsnum \<Rightarrow> jsnum) \<Rightarrow> jsnum \<Rightarrow> jsnum \<Rightarrow> real \<Rightarrow> nat \<Rightarrow> jsnum" where
  "sample_at nz x y lacunarity k =
     nz (js_mul x (frequency_at lacunarity k)) (js_mul y (frequency_at lacunarity k))"

section \<open>Chunk\<close>

record chunk =
  chunkX :: int
  chunkY :: int
  tileSize :: real
  size_c :: int
  tiles :: "jsnum list list"

text \<open>
  \<^verbatim>\<open>generateTiles\<close>: row \<open>y\<close>, column \<open>x\<close> holds the fbm value of the world tile
  \<open>(chunkX * size + x, chunkY * size + y)\<close>, scaled by 0.03. \<open>p\<close> is the table of the
  ImprovedNoise object handed to the constructor.
\<close>

definition world_coord :: "int \<Rightarrow> int \<Rightarrow> int \<Rightarrow> jsnum" where
  "world_coord c sz i = js_add (js_mul (js_fin (of_int c)) (js_fin (of_int sz))) (Fin (of_int i))"

definition generateTiles :: "int \<Rightarrow> int \<Rightarrow> int \<Rightarrow> int list \<Rightarrow> jsnum list list" where
  "generateTiles cx cy sz p =
     map (\<lambda>y. map (\<lambda>x.
            let worldX = world_coord cx sz x;
                worldY = world_coord cy sz y
            in fbm (js_mul worldX (Fin (3 / 100))) (js_mul worldY (Fin (3 / 100))) (js_noise p)
                 8 (21 / 10) (45 / 100))
          [0..sz - 1])
       [0..sz - 1]"

definition Chunk :: "int \<Rightarrow> int \<Rightarrow> real \<Rightarrow> int \<Rightarrow> int list \<Rightarrow> chunk" where
  "Chunk cx cy ts sz p =
     \<lparr>chunkX = cx, chunkY = cy, tileSize = ts, size_c = sz,
      tiles = generateTiles cx cy sz p\<rparr>"

section \<open>Terrain\<close>

text \<open>
  The cache key is the string \<^verbatim>\<open>`${chunkX},${chunkY}`\<close>. Chunk coordinates are integers,
  printed in decimal with a leading minus sign when negative.
\<close>

definition digit_char :: "nat \<Rightarrow> char" where
  "digit_char d = ''0123456789'' ! d"

function dec_nat :: "nat \<Rightarrow> string" where
  "dec_nat n = (if n < 10 then [digit_char n] else dec_nat (n div 10) @ [digit_char (n mod 10)])"
  by pat_completeness auto
termination
  by (relation "measure id") auto

declare dec_nat.simps [simp del]

definition dec_int :: "int \<Rightarrow> string" where
  "dec_int k = (if k < 0 then CHR ''-'' # dec_nat (nat (- k)) else dec_nat (nat k))"

definition chunk_key :: "int \<Rightarrow> int \<Rightarrow> string" where
  "chunk_key cx cy = dec_int cx @ '','' @ dec_int cy"

text \<open>
  The state of a Terrain object. \<open>built\<close> is not a field of the class: it is the
  instrumentation that records the coordinates of every \<^verbatim>\<open>new Chunk(...)\<close> the object
  has executed, in order.
\<close>

record terrain =
  tileSize_t :: real
  chunkSize :: int
  noise_t :: "int list"
  chunks :: "string \<rightharpoonup> chunk"
  built :: "(int \<times> int) list"

definition Terrain :: "real \<Rightarrow> int \<Rightarrow> int list \<Rightarrow> terrain" where
  "Terrain ts cs p =
     \<lparr>tileSize_t = ts, chunkSize = cs, noise_t = p, chunks = Map.empty, built = []\<rparr>"

text \<open>\<^verbatim>\<open>getChunk\<close> returns the chunk and the state after the call.\<close>

definition getChunk :: "terrain \<Rightarrow> int \<Rightarrow> int \<Rightarrow> chunk \<times> terrain" where
  "getChunk t cx cy =
     (let key = chunk_key cx cy
      in case chunks t key of
           None \<Rightarrow>
             let c = Chunk cx cy (tileSize_t t) 16 (noise_t t)
             in (c, t\<lparr>chunks := (chunks t)(key \<mapsto> c), built := built t @ [(cx, cy)]\<rparr>)
         | Some c \<Rightarrow> (c, t))"

definition Water :: string where "Water = ''#3366cc''"
definition Sand :: string where "Sand = ''#e2ca76''"
definition Grass :: string where "Grass = ''#996633''"
definition Dirt :: string where "Dirt = ''#669933''"
definition Rock :: string where "Rock = ''#cccccc''"
definition Snow :: string where "Snow = ''#ffffff''"

definition getColor :: "jsnum \<Rightarrow> string" where
  "getColor v =
     (let norm = js_norm v
      in if js_lt norm (43 / 100) then Water
         else if js_lt norm (45 / 100) then Sand
         else if js_lt norm (48 / 100) then Grass
         else if js_lt norm (65 / 100) then Dirt
         else if js_lt norm (75 / 100) then Rock
         else Snow)"

text \<open>The second variant of the file differs in the Rock threshold only.\<close>

definition getColor2 :: "jsnum \<Rightarrow> string" where
  "getColor2 v =
     (let norm = js_norm v
      in if js_lt norm (43 / 100) then Water
         else if js_lt norm (45 / 100) then Sand
         else if js_lt norm (48 / 100) then Grass
         else if js_lt norm (65 / 100) then Dirt
         else if js_lt norm (95 / 100) then Rock
         else Snow)"

text \<open>
  The classes from lowest to highest terrain, for stating that the classification
  never decreases with the height.
\<close>

definition terrain_rank :: "string \<Rightarrow> nat" where
  "terrain_rank c =
     (if c = Water then 0 else if c = Sand then 1 else if c = Grass then 2
      else if c = Dirt then 3 else if c = Rock then 4 else 5)"

datatype error = TypeError

text \<open>
  \<^verbatim>\<open>tiles[localY][localX] ?? -1\<close>: a missing row is \<^verbatim>\<open>undefined\<close>, and reading a property
  of \<^verbatim>\<open>undefined\<close> throws; a missing cell of an existing row is \<^verbatim>\<open>undefined\<close>, which
  \<^verbatim>\<open>??\<close> replaces by -1.
\<close>

definition tile_at :: "jsnum list list \<Rightarrow> int \<Rightarrow> int \<Rightarrow> error + jsnum" where
  "tile_at ts localY localX =
     (if 0 \<le> localY \<and> localY < int (length ts)
      then let row = ts ! nat localY
           in if 0 \<le> localX \<and> localX < int (length row)
              then Inr (row ! nat localX)
              else Inr (Fin (- 1))
      else Inl TypeError)"

definition local_index :: "real \<Rightarrow> int \<Rightarrow> int" where
  "local_index x cs = js_rem (js_rem \<lfloor>x\<rfloor> cs + cs) cs"

definition chunk_index :: "real \<Rightarrow> int \<Rightarrow> int" where
  "chunk_index x cs = \<lfloor>js_quot x cs\<rfloor>"

text \<open>
  \<^verbatim>\<open>getValue\<close> returns the value or the exception, and the state after the call (the
  chunk that \<^verbatim>\<open>getChunk\<close> may have inserted stays in the cache when the read throws).
  A chunk size of 0 is outside the model: there the program computes with infinities.
\<close>

definition getValue :: "terrain \<Rightarrow> real \<Rightarrow> real \<Rightarrow> (error + jsnum) \<times> terrain" where
  "getValue t x y =
     (let cX = chunk_index x (chunkSize t);
          cY = chunk_index y (chunkSize t);
          localX = local_index x (chunkSize t);
          localY = local_index y (chunkSize t);
          (c, t') = getChunk t cX cY
      in (tile_at (tiles c) localY localX, t'))"

definition isPositionWalkable :: "terrain \<Rightarrow> real \<Rightarrow> real \<Rightarrow> (error + bool) \<times> terrain" where
  "isPositionWalkable t x y =
     (case getValue t x y of
        (Inl e, t') \<Rightarrow> (Inl e, t')
      | (Inr v, t') \<Rightarrow> (Inr (js_ge (js_norm v) (43 / 100)), t'))"

text \<open>
  \<^verbatim>\<open>draw\<close>: the chunk coordinates that the two nested iterations visit, in order, and the
  state after fetching each of them. The canvas calls are not modelled.
\<close>

definition view_coords :: "int \<Rightarrow> int \<Rightarrow> (int \<times> int) list" where
  "view_coords camChunkX camChunkY =
     concat (map (\<lambda>dy. map (\<lambda>dx. (camChunkX + dx, camChunkY + dy)) [- 3..3]) [- 3..3])"

definition draw :: "terrain \<Rightarrow> real \<Rightarrow> real \<Rightarrow> terrain" where
  "draw t camX camY =
     (let camChunkX = chunk_index camX (chunkSize t);
          camChunkY = chunk_index camY (chunkSize t)
      in fold (\<lambda>(cx, cy) s. snd (getChunk s cx cy)) (view_coords camChunkX camChunkY) t)"

text \<open>The public operations, for sequences of calls on one Terrain object.\<close>

datatype op =
    GetChunk int int
  | GetValue real real
  | IsPositionWalkable real real
  | Draw real real

fun exec :: "op \<Rightarrow> terrain \<Rightarrow> terrain" where
  "exec (GetChunk cx cy) t = snd (getChunk t cx cy)"
| "exec (GetValue x y) t = snd (getValue t x y)"
| "exec (IsPositionWalkable x y) t = snd (isPositionWalkable t x y)"
| "exec (Draw camX camY) t = draw t camX camY"

definition run :: "op list \<Rightarrow> terrain \<Rightarrow> terrain" where
  "run ops t = fold exec ops t"

text \<open>
  The cache invariant: a key is cached exactly when the constructor has run for its
  coordinates, it has then run once, and the cached chunk is the one built for those
  coordinates.
\<close>

definition cache_ok :: "terrain \<Rightarrow> bool" where
  "cache_ok t \<longleftrightarrow>
     (\<forall>cx cy. case chunks t (chunk_key cx cy) of
        None \<Rightarrow> count_list (built t) (cx, cy) = 0
      | Some c \<Rightarrow> count_list (built t) (cx, cy) = 1
                 \<and> c = Chunk cx cy (tileSize_t t) 16 (noise_t t))"

section \<open>Noise at lattice points\<close>

lemma grad_origin: "grad h 0 0 = 0"
  by (simp add: grad_def Let_def)

lemma noise_at_integers: "noise p (of_int i) (of_int j) = 0"
  by (simp add: noise_def Let_def fade_def lerp_def grad_origin)

text \<open>
  C6: at every pair of integers the noise value is exactly 0, whatever the table holds.
\<close>

theorem noise_lattice_zero: "noise p (of_int i) (of_int j) = 0"
  by (rule noise_at_integers)

section \<open>Bit masks and remainders\<close>

lemma js_band_255: "js_band k 255 = k mod 256"
proof -
  have "js_band k 255 = signed_take_bit 31 k AND mask 8"
    by (simp add: js_band_def to_int32_def sint_sbintrunc' mask_eq_exp_minus_1)
  also have "\<dots> = take_bit 8 (signed_take_bit 31 k)"
    by (simp add: take_bit_eq_mask)
  also have "\<dots> = take_bit 8 k"
    by (simp add: take_bit_signed_take_bit)
  finally show ?thesis by (simp add: take_bit_eq_mod)
qed

lemma js_rem_bounds: "0 < b \<Longrightarrow> - b < js_rem a b \<and> js_rem a b < b"
proof -
  assume b: "0 < b"
  define m where "m = \<bar>a\<bar> mod \<bar>b\<bar>"
  have m: "0 \<le> m" "m < b" using b by (simp_all add: m_def)
  have "js_rem a b = sgn a * m" by (simp add: js_rem_def m_def)
  with m b show ?thesis by (cases "a < 0"; cases "a = 0") (simp_all add: sgn_if)
qed

lemma js_rem_cong: "0 < b \<Longrightarrow> js_rem a b mod b = a mod b"
  unfolding js_rem_def
  by (cases "a < 0"; cases "a = 0") (auto simp: sgn_if mod_minus_eq)

lemma js_rem_nonneg: "0 \<le> a \<Longrightarrow> 0 < b \<Longrightarrow> js_rem a b = a mod b"
  unfolding js_rem_def by (auto simp: sgn_if)

section \<open>Overflow and underflow\<close>

lemma dbl_overflow_big: "10 ^ 308 < dbl_overflow"
  by (simp add: dbl_overflow_def)

lemma dbl_underflow_pos: "0 < dbl_underflow" "dbl_underflow < 1 / 10 ^ 300"
  by (simp_all add: dbl_underflow_def field_simps)

lemma dbl_underflow_lt1: "dbl_underflow < 1"
  by (simp add: dbl_underflow_def)

lemma js_fin_Fin: "\<bar>r\<bar> < dbl_overflow \<Longrightarrow> js_fin r = Fin r"
  by (auto simp: js_fin_def)

lemma js_quot_exact: "dbl_underflow < \<bar>x / of_int n\<bar> \<Longrightarrow> js_quot x n = x / of_int n"
  by (simp add: js_quot_def)

section \<open>Decomposition of world coordinates\<close>

text \<open>
  The double remainder is the non-negative residue. The chunk index is the floored
  quotient unless the quotient of a negative coordinate underflows to zero.
\<close>

lemma local_index_mod: "0 < cs \<Longrightarrow> local_index x cs = \<lfloor>x\<rfloor> mod cs"
proof -
  assume cs: "0 < cs"
  have b: "0 \<le> js_rem \<lfloor>x\<rfloor> cs + cs" using js_rem_bounds [OF cs, of "\<lfloor>x\<rfloor>"] by simp
  have "local_index x cs = (js_rem \<lfloor>x\<rfloor> cs + cs) mod cs"
    unfolding local_index_def using js_rem_nonneg [OF b cs] .
  also have "\<dots> = js_rem \<lfloor>x\<rfloor> cs mod cs" by simp
  also have "\<dots> = \<lfloor>x\<rfloor> mod cs" by (rule js_rem_cong [OF cs])
  finally show ?thesis .
qed

lemma chunk_index_div:
  assumes "0 < cs" and "0 \<le> x \<or> x < - (of_int cs * dbl_underflow)"
  shows "chunk_index x cs = \<lfloor>x\<rfloor> div cs"
proof (cases "\<bar>x / of_int cs\<bar> \<le> dbl_underflow")
  case False
  then show ?thesis
    using assms(1) by (simp add: chunk_index_def js_quot_def floor_divide_real_eq_div)
next
  case True
  have c: "0 < (of_int cs :: real)" using assms(1) by simp
  from True have "\<bar>x\<bar> \<le> of_int cs * dbl_underflow"
    using c by (simp add: abs_divide field_simps)
  with assms(2) have x0: "0 \<le> x" and xu: "x \<le> of_int cs * dbl_underflow" by auto
  have "\<lfloor>x / of_int cs\<rfloor> = 0"
  proof -
    have "0 \<le> x / of_int cs" using x0 c by simp
    moreover have "x / of_int cs \<le> \<bar>x / of_int cs\<bar>" by (rule abs_ge_self)
    then have "x / of_int cs < 1" using True dbl_underflow_lt1 by linarith
    ultimately show ?thesis by (simp add: floor_eq_iff)
  qed
  then have "\<lfloor>x\<rfloor> div cs = 0" using assms(1) by (simp add: floor_divide_real_eq_div)
  with True show ?thesis by (simp add: chunk_index_def js_quot_def)
qed

lemma chunk_index_bound:
  assumes "cs \<noteq> 0"
  shows "\<bar>of_int (chunk_index x cs)\<bar> \<le> \<bar>x\<bar> + 1"
proof -
  have c: "1 \<le> \<bar>of_int cs :: real\<bar>" using assms by (simp flip: of_int_abs) 
  have q: "\<bar>js_quot x cs\<bar> \<le> \<bar>x\<bar>"
  proof (cases "\<bar>x / of_int cs\<bar> \<le> dbl_underflow")
    case True
    then show ?thesis by (simp add: js_quot_def)
  next
    case False
    have "\<bar>x / of_int cs\<bar> = \<bar>x\<bar> / \<bar>of_int cs\<bar>" by (simp add: abs_divide)
    also have "\<dots> \<le> \<bar>x\<bar> / 1" using c by (intro divide_left_mono) simp_all
    finally show ?thesis using False by (simp add: js_quot_def)
  qed
  have "\<bar>of_int \<lfloor>js_quot x cs\<rfloor> :: real\<bar> \<le> \<bar>js_quot x cs\<bar> + 1"
    by linarith
  with q show ?thesis by (simp add: chunk_index_def)
qed

lemma length_generateTiles: "length (generateTiles cx cy sz p) = nat sz"
  by (simp add: generateTiles_def)

lemma length_generateTiles_row:
  "0 \<le> ly \<Longrightarrow> ly < sz \<Longrightarrow> length (generateTiles cx cy sz p ! nat ly) = nat sz"
  by (simp add: generateTiles_def)

lemma generateTiles_nth:
  "0 \<le> ly \<Longrightarrow> ly < sz \<Longrightarrow> 0 \<le> lx \<Longrightarrow> lx < sz \<Longrightarrow>
   generateTiles cx cy sz p ! nat ly ! nat lx =
     fbm (js_mul (world_coord cx sz lx) (Fin (3 / 100)))
       (js_mul (world_coord cy sz ly) (Fin (3 / 100))) (js_noise p) 8 (21 / 10) (45 / 100)"
  by (simp add: generateTiles_def Let_def)

section \<open>Classification\<close>

lemmas colour_defs = Water_def Sand_def Grass_def Dirt_def Rock_def Snow_def

lemma getColor_Fin:
  "getColor (Fin v) =
     (if (v + 1) / 2 < 43 / 100 then Water
      else if (v + 1) / 2 < 45 / 100 then Sand
      else if (v + 1) / 2 < 48 / 100 then Grass
      else if (v + 1) / 2 < 65 / 100 then Dirt
      else if (v + 1) / 2 < 75 / 100 then Rock
      else Snow)"
  by (simp add: getColor_def)

lemma getColor2_Fin:
  "getColor2 (Fin v) =
     (if (v + 1) / 2 < 43 / 100 then Water
      else if (v + 1) / 2 < 45 / 100 then Sand
      else if (v + 1) / 2 < 48 / 100 then Grass
      else if (v + 1) / 2 < 65 / 100 then Dirt
      else if (v + 1) / 2 < 95 / 100 then Rock
      else Snow)"
  by (simp add: getColor2_def)

lemma rank_simps:
  "terrain_rank Water = 0" "terrain_rank Sand = 1" "terrain_rank Grass = 2"
  "terrain_rank Dirt = 3" "terrain_rank Rock = 4" "terrain_rank Snow = 5"
  by (simp_all add: terrain_rank_def colour_defs)

lemma getColor_mono:
  "v \<le> w \<Longrightarrow> terrain_rank (getColor (Fin v)) \<le> terrain_rank (getColor (Fin w))"
  unfolding getColor_Fin by (simp add: rank_simps)

lemma getColor2_mono:
  "v \<le> w \<Longrightarrow> terrain_rank (getColor2 (Fin v)) \<le> terrain_rank (getColor2 (Fin w))"
  unfolding getColor2_Fin by (simp add: rank_simps)

lemma getColor_bands:
  "(getColor (Fin v) = Water \<longleftrightarrow> (v + 1) / 2 < 43 / 100)
   \<and> (getColor (Fin v) = Sand \<longleftrightarrow> 43 / 100 \<le> (v + 1) / 2 \<and> (v + 1) / 2 < 45 / 100)
   \<and> (getColor (Fin v) = Grass \<longleftrightarrow> 45 / 100 \<le> (v + 1) / 2 \<and> (v + 1) / 2 < 48 / 100)
   \<and> (getColor (Fin v) = Dirt \<longleftrightarrow> 48 / 100 \<le> (v + 1) / 2 \<and> (v + 1) / 2 < 65 / 100)
   \<and> (getColor (Fin v) = Rock \<longleftrightarrow> 65 / 100 \<le> (v + 1) / 2 \<and> (v + 1) / 2 < 75 / 100)
   \<and> (getColor (Fin v) = Snow \<longleftrightarrow> 75 / 100 \<le> (v + 1) / 2)"
  unfolding getColor_Fin by (simp add: colour_defs)

lemma getColor2_bands:
  "(getColor2 (Fin v) = Water \<longleftrightarrow> (v + 1) / 2 < 43 / 100)
   \<and> (getColor2 (Fin v) = Sand \<longleftrightarrow> 43 / 100 \<le> (v + 1) / 2 \<and> (v + 1) / 2 < 45 / 100)
   \<and> (getColor2 (Fin v) = Grass \<longleftrightarrow> 45 / 100 \<le> (v + 1) / 2 \<and> (v + 1) / 2 < 48 / 100)
   \<and> (getColor2 (Fin v) = Dirt \<longleftrightarrow> 48 / 100 \<le> (v + 1) / 2 \<and> (v + 1) / 2 < 65 / 100)
   \<and> (getColor2 (Fin v) = Rock \<longleftrightarrow> 65 / 100 \<le> (v + 1) / 2 \<and> (v + 1) / 2 < 95 / 100)
   \<and> (getColor2 (Fin v) = Snow \<longleftrightarrow> 95 / 100 \<le> (v + 1) / 2)"
  unfolding getColor2_Fin by (simp add: colour_defs)

text \<open>
  C8: with \<open>norm = (value + 1) / 2\<close>, \<^verbatim>\<open>getColor\<close> yields Water exactly for
  \<open>norm < 0.43\<close>, Sand for \<open>0.43 \<le> norm < 0.45\<close>, Grass for \<open>0.45 \<le> norm < 0.48\<close>, Dirt
  for \<open>0.48 \<le> norm < 0.65\<close>, Rock for \<open>0.65 \<le> norm < 0.75\<close> (0.95 in the second
  variant) and Snow from there on; the class never decreases when the value grows;
  and \<open>norm = 0.43\<close> is Sand.
\<close>

theorem getColor_step_function:
  "((getColor (Fin v) = Water \<longleftrightarrow> (v + 1) / 2 < 43 / 100)
    \<and> (getColor (Fin v) = Sand \<longleftrightarrow> 43 / 100 \<le> (v + 1) / 2 \<and> (v + 1) / 2 < 45 / 100)
    \<and> (getColor (Fin v) = Grass \<longleftrightarrow> 45 / 100 \<le> (v + 1) / 2 \<and> (v + 1) / 2 < 48 / 100)
    \<and> (getColor (Fin v) = Dirt \<longleftrightarrow> 48 / 100 \<le> (v + 1) / 2 \<and> (v + 1) / 2 < 65 / 100)
    \<and> (getColor (Fin v) = Rock \<longleftrightarrow> 65 / 100 \<le> (v + 1) / 2 \<and> (v + 1) / 2 < 75 / 100)
    \<and> (getColor (Fin v) = Snow \<longleftrightarrow> 75 / 100 \<le> (v + 1) / 2))
   \<and> ((getColor2 (Fin v) = Water \<longleftrightarrow> (v + 1) / 2 < 43 / 100)
    \<and> (getColor2 (Fin v) = Sand \<longleftrightarrow> 43 / 100 \<le> (v + 1) / 2 \<and> (v + 1) / 2 < 45 / 100)
    \<and> (getColor2 (Fin v) = Grass \<longleftrightarrow> 45 / 100 \<le> (v + 1) / 2 \<and> (v + 1) / 2 < 48 / 100)
    \<and> (getColor2 (Fin v) = Dirt \<longleftrightarrow> 48 / 100 \<le> (v + 1) / 2 \<and> (v + 1) / 2 < 65 / 100)
    \<and> (getColor2 (Fin v) = Rock \<longleftrightarrow> 65 / 100 \<le> (v + 1) / 2 \<and> (v + 1) / 2 < 95 / 100)
    \<and> (getColor2 (Fin v) = Snow \<longleftrightarrow> 95 / 100 \<le> (v + 1) / 2))
   \<and> (v \<le> w \<longrightarrow> terrain_rank (getColor (Fin v)) \<le> terrain_rank (getColor (Fin w)))
   \<and> (v \<le> w \<longrightarrow> terrain_rank (getColor2 (Fin v)) \<le> terrain_rank (getColor2 (Fin w)))
   \<and> getColor (Fin (2 * (43 / 100) - 1)) = Sand
   \<and> getColor2 (Fin (2 * (43 / 100) - 1)) = Sand"
proof -
  have a: "(getColor (Fin v) = Water \<longleftrightarrow> (v + 1) / 2 < 43 / 100)
    \<and> (getColor (Fin v) = Sand \<longleftrightarrow> 43 / 100 \<le> (v + 1) / 2 \<and> (v + 1) / 2 < 45 / 100)
    \<and> (getColor (Fin v) = Grass \<longleftrightarrow> 45 / 100 \<le> (v + 1) / 2 \<and> (v + 1) / 2 < 48 / 100)
    \<and> (getColor (Fin v) = Dirt \<longleftrightarrow> 48 / 100 \<le> (v + 1) / 2 \<and> (v + 1) / 2 < 65 / 100)
    \<and> (getColor (Fin v) = Rock \<longleftrightarrow> 65 / 100 \<le> (v + 1) / 2 \<and> (v + 1) / 2 < 75 / 100)
    \<and> (getColor (Fin v) = Snow \<longleftrightarrow> 75 / 100 \<le> (v + 1) / 2)"
    by (rule getColor_bands)
  have b: "(getColor2 (Fin v) = Water \<longleftrightarrow> (v + 1) / 2 < 43 / 100)
    \<and> (getColor2 (Fin v) = Sand \<longleftrightarrow> 43 / 100 \<le> (v + 1) / 2 \<and> (v + 1) / 2 < 45 / 100)
    \<and> (getColor2 (Fin v) = Grass \<longleftrightarrow> 45 / 100 \<le> (v + 1) / 2 \<and> (v + 1) / 2 < 48 / 100)
    \<and> (getColor2 (Fin v) = Dirt \<longleftrightarrow> 48 / 100 \<le> (v + 1) / 2 \<and> (v + 1) / 2 < 65 / 100)
    \<and> (getColor2 (Fin v) = Rock \<longleftrightarrow> 65 / 100 \<le> (v + 1) / 2 \<and> (v + 1) / 2 < 95 / 100)
    \<and> (getColor2 (Fin v) = Snow \<longleftrightarrow> 95 / 100 \<le> (v + 1) / 2)"
    by (rule getColor2_bands)
  have c: "v \<le> w \<longrightarrow> terrain_rank (getColor (Fin v)) \<le> terrain_rank (getColor (Fin w))"
    by (rule impI) (rule getColor_mono)
  have d: "v \<le> w \<longrightarrow> terrain_rank (getColor2 (Fin v)) \<le> terrain_rank (getColor2 (Fin w))"
    by (rule impI) (rule getColor2_mono)
  have e: "getColor (Fin (2 * (43 / 100) - 1)) = Sand"
    and f: "getColor2 (Fin (2 * (43 / 100) - 1)) = Sand"
    by (simp_all add: getColor_Fin getColor2_Fin)
  show ?thesis
    by (rule conjI [OF a conjI [OF b conjI [OF c conjI [OF d conjI [OF e f]]]]])
qed

theorem getColor_step_function_witness:
  "(- 1 :: real) \<le> 1
   \<and> terrain_rank (getColor (Fin (- 1))) \<le> terrain_rank (getColor (Fin 1))
   \<and> terrain_rank (getColor2 (Fin (- 1))) \<le> terrain_rank (getColor2 (Fin 1))"
proof -
  have h: "(- 1 :: real) \<le> 1" by simp
  note t = getColor_step_function [of "- 1" 1, THEN conjunct2, THEN conjunct2]
  from t [THEN conjunct1] h
  have c: "terrain_rank (getColor (Fin (- 1))) \<le> terrain_rank (getColor (Fin 1))"
    by (rule mp)
  from t [THEN conjunct2, THEN conjunct1] h
  have d: "terrain_rank (getColor2 (Fin (- 1))) \<le> terrain_rank (getColor2 (Fin 1))"
    by (rule mp)
  show ?thesis by (rule conjI [OF h conjI [OF c d]])
qed

section \<open>The table of ImprovedNoise\<close>

lemma length_ImprovedNoise: "length (ImprovedNoise rs) = 2 * length rs"
  by (simp add: ImprovedNoise_def Let_def)

lemma ImprovedNoise_nth:
  "i < 2 * length rs \<Longrightarrow> ImprovedNoise rs ! i = \<lfloor>rs ! (i mod length rs) * 256\<rfloor>"
  by (auto simp: ImprovedNoise_def Let_def nth_append mod_if)

lemma floor_draw: "0 \<le> r \<Longrightarrow> r < 1 \<Longrightarrow> 0 \<le> \<lfloor>r * 256\<rfloor> \<and> \<lfloor>r * 256\<rfloor> < 256" for r :: real
  by (simp add: floor_less_iff)

lemma count_list_replicate: "count_list (replicate n x) y = (if x = y then n else 0)"
  by (induction n) auto

lemma table_entries:
  assumes "length rs = 256" and "\<forall>r\<in>set rs. 0 \<le> r \<and> r < 1"
  shows "length (ImprovedNoise rs) = 512"
    and "\<And>i. i < 512 \<Longrightarrow> 0 \<le> ImprovedNoise rs ! i \<and> ImprovedNoise rs ! i < 256"
    and "\<And>i. i < 256 \<Longrightarrow> ImprovedNoise rs ! i = \<lfloor>rs ! i * 256\<rfloor>"
    and "\<And>i. i < 256 \<Longrightarrow> ImprovedNoise rs ! (256 + i) = ImprovedNoise rs ! i"
proof -
  show "length (ImprovedNoise rs) = 512" using assms(1) by (simp add: length_ImprovedNoise)
  have nth: "ImprovedNoise rs ! i = \<lfloor>rs ! (i mod 256) * 256\<rfloor>" if "i < 512" for i
    using ImprovedNoise_nth [of i rs] that assms(1) by simp
  show "0 \<le> ImprovedNoise rs ! i \<and> ImprovedNoise rs ! i < 256" if "i < 512" for i
  proof -
    have "rs ! (i mod 256) \<in> set rs" using assms(1) by simp
    then have "0 \<le> rs ! (i mod 256) \<and> rs ! (i mod 256) < 1" using assms(2) by blast
    then show ?thesis unfolding nth [OF that] using floor_draw by blast
  qed
  show "ImprovedNoise rs ! i = \<lfloor>rs ! i * 256\<rfloor>" if "i < 256" for i
    using nth [of i] that by simp
  show "ImprovedNoise rs ! (256 + i) = ImprovedNoise rs ! i" if "i < 256" for i
    using nth [of i] nth [of "256 + i"] that by simp
qed

text \<open>
  C4, as stated, fails: when every draw of \<^verbatim>\<open>Math.random()\<close> is below 1/256 the first
  half of the table holds 0 in all 256 places, so 0 appears 256 times and 1 never.
\<close>

theorem table_not_permutation:
  "count_list (take 256 (ImprovedNoise (replicate 256 0))) 0 = 256
   \<and> count_list (take 256 (ImprovedNoise (replicate 256 0))) 1 = 0"
  by (simp add: ImprovedNoise_def Let_def count_list_replicate)

section \<open>Table reads of noise\<close>

lemma noise_X_range: "0 \<le> noise_X x \<and> noise_X x \<le> 255"
  by (simp add: noise_X_def js_band_255)

lemma p_at_Some:
  "0 \<le> k \<Longrightarrow> k < int (length p) \<Longrightarrow> p_at p (Some k) = Some (p ! nat k)"
  by (simp add: p_at_def)

text \<open>
  C10: with a table built by the constructor, \<open>X\<close> and \<open>Y\<close> lie in \<open>[0, 255]\<close> and each
  of the six table reads of \<^verbatim>\<open>noise(x, y)\<close> uses an index in \<open>[0, 512)\<close>, the length of the
  table, so every read returns a stored entry. This holds for every real \<open>x\<close> and \<open>y\<close>,
  in particular for those whose floors fit in 32 bits.
\<close>

theorem noise_reads_in_table:
  assumes "length rs = 256" and "\<forall>r\<in>set rs. 0 \<le> r \<and> r < 1"
  shows "0 \<le> noise_X x \<and> noise_X x \<le> 255 \<and> 0 \<le> noise_X y \<and> noise_X y \<le> 255
     \<and> length (ImprovedNoise rs) = 512
     \<and> (\<forall>i\<in>set (noise_reads (ImprovedNoise rs) x y).
          \<exists>k. i = Some k \<and> 0 \<le> k \<and> k < 512
             \<and> p_at (ImprovedNoise rs) i = Some (ImprovedNoise rs ! nat k))"
proof -
  let ?p = "ImprovedNoise rs"
  have len: "length ?p = 512" and rng: "\<And>i. i < 512 \<Longrightarrow> 0 \<le> ?p ! i \<and> ?p ! i < 256"
    using table_entries [OF assms] by blast+
  have X: "0 \<le> noise_X x" "noise_X x \<le> 255" and Y: "0 \<le> noise_X y" "noise_X y \<le> 255"
    using noise_X_range by blast+
  have pX: "p_at ?p (Some (noise_X x)) = Some (?p ! nat (noise_X x))"
    and pX1: "p_at ?p (Some (noise_X x + 1)) = Some (?p ! nat (noise_X x + 1))"
    using X len by (simp_all add: p_at_Some)
  have A: "noise_A ?p x y = Some (?p ! nat (noise_X x) + noise_X y)"
    and B: "noise_B ?p x y = Some (?p ! nat (noise_X x + 1) + noise_X y)"
    by (simp_all add: noise_A_def noise_B_def pX pX1 js_plus_def)
  have rA: "0 \<le> ?p ! nat (noise_X x) \<and> ?p ! nat (noise_X x) < 256"
    and rB: "0 \<le> ?p ! nat (noise_X x + 1) \<and> ?p ! nat (noise_X x + 1) < 256"
    using X by (simp_all add: rng)
  show ?thesis
    using X Y rA rB len
    by (simp add: noise_reads_def A B js_plus_def p_at_Some)
qed

theorem noise_reads_in_table_witness:
  "length (replicate 256 (255 / 256 :: real)) = 256
   \<and> length (ImprovedNoise (replicate 256 (255 / 256))) = 512
   \<and> (\<exists>k. js_plus (noise_B (ImprovedNoise (replicate 256 (255 / 256))) (- 1 / 2) (2147483647 + 1 / 2)) 1
            = Some k \<and> 0 \<le> k \<and> k < 512)"
proof -
  have h1: "length (replicate 256 (255 / 256 :: real)) = 256" by simp
  have h2: "\<forall>r\<in>set (replicate 256 (255 / 256 :: real)). 0 \<le> r \<and> r < 1" by simp
  note t = noise_reads_in_table [OF h1 h2, of "- 1 / 2" "2147483647 + 1 / 2"]
  have a: "length (ImprovedNoise (replicate 256 (255 / 256))) = 512"
    using t by (elim conjE)
  have "js_plus (noise_B (ImprovedNoise (replicate 256 (255 / 256))) (- 1 / 2) (2147483647 + 1 / 2)) 1
     \<in> set (noise_reads (ImprovedNoise (replicate 256 (255 / 256))) (- 1 / 2) (2147483647 + 1 / 2))"
    by (simp add: noise_reads_def)
  with t have b: "\<exists>k. js_plus (noise_B (ImprovedNoise (replicate 256 (255 / 256))) (- 1 / 2) (2147483647 + 1 / 2)) 1
            = Some k \<and> 0 \<le> k \<and> k < 512" by blast
  show ?thesis by (rule conjI [OF h1 conjI [OF a b]])
qed

section \<open>Normalisation of fbm\<close>

lemma power_at_Fin:
  "(\<forall>j\<le>k. \<bar>l\<bar> ^ j < dbl_overflow) \<Longrightarrow> frequency_at l k = Fin (l ^ k)"
proof (induction k)
  case 0
  then show ?case by simp
next
  case (Suc k)
  then have ih: "frequency_at l k = Fin (l ^ k)" by simp
  have "\<bar>l ^ Suc k\<bar> < dbl_overflow" using Suc.prems by (simp only: power_abs) 
  then show ?case by (simp add: ih js_fin_Fin mult.commute)
qed

lemma amplitude_is_frequency: "amplitude_at g k = frequency_at g k"
  by (induction k) simp_all

lemma amplitude_at_Fin:
  "0 \<le> g \<Longrightarrow> (\<forall>j\<le>k. g ^ j < dbl_overflow) \<Longrightarrow> amplitude_at g k = Fin (g ^ k)"
  using power_at_Fin [of k g] by (simp add: amplitude_is_frequency)

lemma geometric_term_le:
  fixes g :: real
  assumes "0 \<le> g" and "j < n"
  shows "g ^ j \<le> (\<Sum>k<n. g ^ k)"
proof -
  have "(\<Sum>k\<in>{j}. g ^ k) \<le> (\<Sum>k<n. g ^ k)"
    using assms by (intro sum_mono2) auto
  then show ?thesis by simp
qed

lemma geometric_prefix_le:
  fixes g :: real
  assumes "0 \<le> g" and "i \<le> n"
  shows "(\<Sum>k<i. g ^ k) \<le> (\<Sum>k<n. g ^ k)"
  using assms by (intro sum_mono2) auto

lemma fbm_loop_finite:
  fixes g C :: real
  assumes g: "0 \<le> g" and C: "0 \<le> C"
    and samp: "\<forall>k<n. sample_at nz x y lac k = Fin (s k) \<and> \<bar>s k\<bar> \<le> C"
    and finC: "C * (\<Sum>k<n. g ^ k) < dbl_overflow"
    and finM: "(\<Sum>k<n. g ^ k) < dbl_overflow"
  shows "i \<le> n \<Longrightarrow> \<bar>v\<bar> \<le> C * (\<Sum>k<i. g ^ k) \<Longrightarrow>
     fbm_loop nz x y (int n) lac g (int i) (Fin v) (amplitude_at g i) (frequency_at lac i)
       (Fin (\<Sum>k<i. g ^ k))
     = (Fin (v + (\<Sum>k = i..<n. s k * g ^ k)), Fin (\<Sum>k<n. g ^ k))"
proof (induction "n - i" arbitrary: i v)
  case 0
  then have "i = n" by simp
  then show ?case by (subst fbm_loop.simps) simp
next
  case (Suc d)
  then have lt: "i < n" and d: "d = n - Suc i" by simp_all
  have amp: "amplitude_at g i = Fin (g ^ i)"
  proof (rule amplitude_at_Fin [OF g], intro allI impI)
    fix j assume "j \<le> i"
    then have "g ^ j \<le> (\<Sum>k<n. g ^ k)" using lt by (intro geometric_term_le [OF g]) simp
    then show "g ^ j < dbl_overflow" using finM by linarith
  qed
  have si: "nz (js_mul x (frequency_at lac i)) (js_mul y (frequency_at lac i)) = Fin (s i)"
    and sb: "\<bar>s i\<bar> \<le> C"
    using samp lt by (simp_all add: sample_at_def)
  have gi: "0 \<le> g ^ i" using g by simp
  have pre: "(\<Sum>k<Suc i. g ^ k) \<le> (\<Sum>k<n. g ^ k)"
    using lt by (intro geometric_prefix_le [OF g]) simp
  have t1: "\<bar>s i * g ^ i\<bar> \<le> C * g ^ i"
    using sb gi by (simp add: abs_mult mult_right_mono)
  have "C * g ^ i \<le> C * (\<Sum>k<n. g ^ k)"
    using geometric_term_le [OF g lt] C by (intro mult_left_mono)
  with t1 finC have f1: "\<bar>s i * g ^ i\<bar> < dbl_overflow" by linarith
  have v': "\<bar>v + s i * g ^ i\<bar> \<le> C * (\<Sum>k<Suc i. g ^ k)"
    using Suc.prems(2) t1 by (simp add: distrib_left)
  have "C * (\<Sum>k<Suc i. g ^ k) \<le> C * (\<Sum>k<n. g ^ k)"
    using pre C by (intro mult_left_mono)
  with v' finC have f2: "\<bar>v + s i * g ^ i\<bar> < dbl_overflow" by linarith
  have m0: "0 \<le> (\<Sum>k<Suc i. g ^ k)" using g by (intro sum_nonneg) simp
  have f3: "\<bar>(\<Sum>k<i. g ^ k) + g ^ i\<bar> < dbl_overflow"
    using pre finM m0 by simp
  have ih: "fbm_loop nz x y (int n) lac g (int (Suc i)) (Fin (v + s i * g ^ i))
        (amplitude_at g (Suc i)) (frequency_at lac (Suc i)) (Fin (\<Sum>k<Suc i. g ^ k))
     = (Fin (v + s i * g ^ i + (\<Sum>k = Suc i..<n. s k * g ^ k)), Fin (\<Sum>k<n. g ^ k))"
    using Suc.hyps(1) [of "Suc i" "v + s i * g ^ i"] d lt v' by simp
  have split: "(\<Sum>k = i..<n. s k * g ^ k) = s i * g ^ i + (\<Sum>k = Suc i..<n. s k * g ^ k)"
    using lt by (simp add: sum.atLeast_Suc_lessThan)
  have step: "fbm_loop nz x y (int n) lac g (int i) (Fin v) (amplitude_at g i) (frequency_at lac i)
       (Fin (\<Sum>k<i. g ^ k))
     = fbm_loop nz x y (int n) lac g (int (Suc i)) (Fin (v + s i * g ^ i))
        (amplitude_at g (Suc i)) (frequency_at lac (Suc i)) (Fin (\<Sum>k<Suc i. g ^ k))"
    using lt f1 f2 f3
    by (subst fbm_loop.simps) (simp add: si amp js_fin_Fin add.commute)
  show ?case unfolding step ih split by (simp add: add.assoc)
qed

lemma weighted_sum_bound:
  fixes g C :: real
  assumes "0 \<le> g" and "\<forall>k<n. \<bar>s k\<bar> \<le> C"
  shows "\<bar>\<Sum>k<n. s k * g ^ k\<bar> \<le> C * (\<Sum>k<n. g ^ k)"
proof -
  have "\<bar>\<Sum>k<n. s k * g ^ k\<bar> \<le> (\<Sum>k<n. \<bar>s k * g ^ k\<bar>)" by (rule sum_abs)
  also have "\<dots> \<le> (\<Sum>k<n. C * g ^ k)"
  proof (rule sum_mono)
    fix k assume "k \<in> {..<n}"
    then have "\<bar>s k\<bar> \<le> C" using assms(2) by simp
    moreover have "0 \<le> g ^ k" using assms(1) by simp
    ultimately have "\<bar>s k\<bar> * g ^ k \<le> C * g ^ k" by (rule mult_right_mono)
    then show "\<bar>s k * g ^ k\<bar> \<le> C * g ^ k" using assms(1) by (simp add: abs_mult)
  qed
  also have "\<dots> = C * (\<Sum>k<n. g ^ k)" by (simp add: sum_distrib_left)
  finally show ?thesis .
qed

lemma amplitude_sum_pos:
  fixes g :: real
  assumes "0 < n" and "0 \<le> g"
  shows "1 \<le> (\<Sum>k<n. g ^ k)"
  using geometric_term_le [OF assms(2), of 0 n] assms(1) by simp

lemma fbm_finite_value:
  fixes g C :: real
  assumes n: "0 < n" and g: "0 \<le> g" and C: "0 \<le> C"
    and samp: "\<forall>k<n. sample_at nz x y lac k = Fin (s k) \<and> \<bar>s k\<bar> \<le> C"
    and finC: "C * (\<Sum>k<n. g ^ k) < dbl_overflow"
    and finM: "(\<Sum>k<n. g ^ k) < dbl_overflow"
  shows "fbm_loop nz x y (int n) lac g 0 (Fin 0) (Fin 1) (Fin 1) (Fin 0)
           = (Fin (\<Sum>k<n. s k * g ^ k), Fin (\<Sum>k<n. g ^ k))"
    and "fbm x y nz (int n) lac g = Fin ((\<Sum>k<n. s k * g ^ k) / (\<Sum>k<n. g ^ k))"
    and "\<bar>(\<Sum>k<n. s k * g ^ k) / (\<Sum>k<n. g ^ k)\<bar> \<le> C"
proof -
  let ?S = "\<Sum>k<n. s k * g ^ k" and ?M = "\<Sum>k<n. g ^ k"
  show loop: "fbm_loop nz x y (int n) lac g 0 (Fin 0) (Fin 1) (Fin 1) (Fin 0) = (Fin ?S, Fin ?M)"
    using fbm_loop_finite [OF g C samp finC finM, of 0 0]
    by (simp add: lessThan_atLeast0)
  have M: "1 \<le> ?M" by (rule amplitude_sum_pos [OF n g])
  have S: "\<bar>?S\<bar> \<le> C * ?M" using weighted_sum_bound [OF g, of n s C] samp by simp
  show b: "\<bar>?S / ?M\<bar> \<le> C"
    using S M by (simp add: abs_divide pos_divide_le_eq abs_of_pos)
  have "C \<le> C * ?M" using M C by (simp add: mult_le_cancel_left1)
  with b finC have "\<bar>?S / ?M\<bar> < dbl_overflow" by linarith
  then show "fbm x y nz (int n) lac g = Fin (?S / ?M)"
    using M by (simp add: fbm_def loop js_fin_Fin)
qed




lemma js_fin_small: "\<bar>r\<bar> \<le> 10 ^ 300 \<Longrightarrow> js_fin r = Fin r"
  using dbl_overflow_big by (intro js_fin_Fin) (simp add: dbl_overflow_def)




section \<open>Cache keys\<close>

text \<open>Distinct chunk coordinates have distinct keys.\<close>

lemma digit_char_cases:
  "d < 10 \<Longrightarrow> d = 0 \<or> d = 1 \<or> d = 2 \<or> d = 3 \<or> d = 4 \<or> d = 5 \<or> d = 6 \<or> d = 7 \<or> d = 8 \<or> d = (9::nat)"
  by arith

lemma digit_char_code: "d < 10 \<Longrightarrow> (of_char (digit_char d) :: nat) = 48 + d"
  using digit_char_cases [of d] by (auto simp: digit_char_def)

lemma digit_char_not_sep:
  assumes "d < 10"
  shows "digit_char d \<noteq> CHR '','' \<and> digit_char d \<noteq> CHR ''-''"
proof -
  have c: "(of_char (digit_char d) :: nat) = 48 + d" by (rule digit_char_code [OF assms])
  have "digit_char d \<noteq> CHR '',''"
  proof
    assume e: "digit_char d = CHR '',''"
    from c show False unfolding e by simp
  qed
  moreover have "digit_char d \<noteq> CHR ''-''"
  proof
    assume e: "digit_char d = CHR ''-''"
    from c show False unfolding e by simp
  qed
  ultimately show ?thesis by (rule conjI)
qed

lemma digit_char_inj:
  assumes "d < 10" and "e < 10" and "digit_char d = digit_char e"
  shows "d = e"
proof -
  have "(of_char (digit_char d) :: nat) = 48 + d" by (rule digit_char_code [OF assms(1)])
  moreover have "(of_char (digit_char e) :: nat) = 48 + e" by (rule digit_char_code [OF assms(2)])
  ultimately show ?thesis unfolding assms(3) by simp
qed

lemma dec_nat_nonempty: "dec_nat n \<noteq> []"
  by (subst dec_nat.simps) simp

lemma dec_nat_chars: "c \<in> set (dec_nat n) \<Longrightarrow> c \<noteq> CHR '','' \<and> c \<noteq> CHR ''-''"
proof (induction n rule: dec_nat.induct)
  case (1 n)
  show ?case
  proof (cases "n < 10")
    case True
    with "1.prems" show ?thesis
      by (subst (asm) dec_nat.simps) (simp add: digit_char_not_sep)
  next
    case False
    have "n mod 10 < 10" by simp
    with False "1.prems" "1.IH" show ?thesis
      by (subst (asm) dec_nat.simps) (auto simp: digit_char_not_sep)
  qed
qed

lemma dec_nat_inj: "dec_nat n = dec_nat m \<Longrightarrow> n = m"
proof (induction n arbitrary: m rule: dec_nat.induct)
  case (1 n)
  have en: "dec_nat n = (if n < 10 then [digit_char n] else dec_nat (n div 10) @ [digit_char (n mod 10)])"
    by (rule dec_nat.simps)
  have em: "dec_nat m = (if m < 10 then [digit_char m] else dec_nat (m div 10) @ [digit_char (m mod 10)])"
    by (rule dec_nat.simps)
  show ?case
  proof (cases "n < 10")
    case n: True
    show ?thesis
    proof (cases "m < 10")
      case True
      with n "1.prems" en em show ?thesis by (simp add: digit_char_inj)
    next
      case False
      with n "1.prems" en em have "[digit_char n] = dec_nat (m div 10) @ [digit_char (m mod 10)]"
        by simp
      then have "dec_nat (m div 10) = []" by simp
      then show ?thesis using dec_nat_nonempty by blast
    qed
  next
    case n: False
    show ?thesis
    proof (cases "m < 10")
      case True
      with n "1.prems" en em have "dec_nat (n div 10) @ [digit_char (n mod 10)] = [digit_char m]"
        by simp
      then have "dec_nat (n div 10) = []" by simp
      then show ?thesis using dec_nat_nonempty by blast
    next
      case False
      with n "1.prems" en em
      have "dec_nat (n div 10) @ [digit_char (n mod 10)] = dec_nat (m div 10) @ [digit_char (m mod 10)]"
        by simp
      then have a: "dec_nat (n div 10) = dec_nat (m div 10)"
        and b: "digit_char (n mod 10) = digit_char (m mod 10)" by simp_all
      have "n div 10 = m div 10" using "1.IH" [OF n a] .
      moreover have "n mod 10 = m mod 10" using b by (intro digit_char_inj) simp_all
      ultimately show ?thesis by (metis div_mult_mod_eq)
    qed
  qed
qed

lemma dec_nat_hd: "hd (dec_nat n) \<noteq> CHR ''-''"
  using dec_nat_chars [of "hd (dec_nat n)" n] dec_nat_nonempty [of n] by simp

lemma dec_int_inj: "dec_int a = dec_int b \<Longrightarrow> a = b"
proof -
  assume e: "dec_int a = dec_int b"
  have neg: False if "dec_nat u = CHR ''-'' # w" for u w
    using dec_nat_hd [of u] that by simp
  show ?thesis
  proof (cases "a < 0"; cases "b < 0")
    assume "a < 0" "b < 0"
    with e have "dec_nat (nat (- a)) = dec_nat (nat (- b))" by (simp add: dec_int_def)
    then have "nat (- a) = nat (- b)" by (rule dec_nat_inj)
    with \<open>a < 0\<close> \<open>b < 0\<close> show ?thesis by simp
  next
    assume "a < 0" "\<not> b < 0"
    with e have "dec_nat (nat b) = CHR ''-'' # dec_nat (nat (- a))" by (simp add: dec_int_def)
    then show ?thesis using neg by blast
  next
    assume "\<not> a < 0" "b < 0"
    with e have "dec_nat (nat a) = CHR ''-'' # dec_nat (nat (- b))" by (simp add: dec_int_def)
    then show ?thesis using neg by blast
  next
    assume "\<not> a < 0" "\<not> b < 0"
    with e have "dec_nat (nat a) = dec_nat (nat b)" by (simp add: dec_int_def)
    then have "nat a = nat b" by (rule dec_nat_inj)
    with \<open>\<not> a < 0\<close> \<open>\<not> b < 0\<close> show ?thesis by simp
  qed
qed

lemma dec_int_no_comma: "CHR '','' \<notin> set (dec_int a)"
  using dec_nat_chars by (auto simp: dec_int_def)

lemma chunk_key_inj: "chunk_key cx cy = chunk_key cx' cy' \<longleftrightarrow> cx = cx' \<and> cy = cy'"
proof
  assume "chunk_key cx cy = chunk_key cx' cy'"
  then have "dec_int cx @ CHR '','' # dec_int cy = dec_int cx' @ CHR '','' # dec_int cy'"
    by (simp add: chunk_key_def)
  then have "dec_int cx = dec_int cx' \<and> dec_int cy = dec_int cy'"
    using append_Cons_eq_iff [OF dec_int_no_comma [of cx] dec_int_no_comma [of cy]]
    by simp
  then show "cx = cx' \<and> cy = cy'" using dec_int_inj by blast
qed simp

section \<open>The chunk cache\<close>

lemma cache_ok_Terrain: "cache_ok (Terrain ts cs p)"
  by (simp add: cache_ok_def Terrain_def)

lemma getChunk_hit:
  "chunks t (chunk_key cx cy) = Some c \<Longrightarrow> getChunk t cx cy = (c, t)"
  by (simp add: getChunk_def)

lemma getChunk_miss:
  "chunks t (chunk_key cx cy) = None \<Longrightarrow>
   getChunk t cx cy =
     (Chunk cx cy (tileSize_t t) 16 (noise_t t),
      t\<lparr>chunks := (chunks t)(chunk_key cx cy \<mapsto> Chunk cx cy (tileSize_t t) 16 (noise_t t)),
        built := built t @ [(cx, cy)]\<rparr>)"
  by (simp add: getChunk_def Let_def)

lemma getChunk_params:
  "tileSize_t (snd (getChunk t cx cy)) = tileSize_t t"
  "chunkSize (snd (getChunk t cx cy)) = chunkSize t"
  "noise_t (snd (getChunk t cx cy)) = noise_t t"
  by (simp_all add: getChunk_def Let_def split: option.split)

lemma getChunk_cached:
  "chunks (snd (getChunk t cx cy)) (chunk_key cx cy) = Some (fst (getChunk t cx cy))"
  by (simp add: getChunk_def Let_def split: option.split)

lemma getChunk_keeps:
  "chunks t k = Some c \<Longrightarrow> chunks (snd (getChunk t cx cy)) k = Some c"
  by (auto simp: getChunk_def Let_def split: option.split)

lemma getChunk_cache_ok:
  assumes "cache_ok t"
  shows "cache_ok (snd (getChunk t cx cy))"
proof (cases "chunks t (chunk_key cx cy)")
  case (Some c)
  then show ?thesis using assms by (simp add: getChunk_hit)
next
  case None
  show ?thesis
    unfolding cache_ok_def
  proof (intro allI)
    fix ax ay
    have old: "case chunks t (chunk_key ax ay) of
        None \<Rightarrow> count_list (built t) (ax, ay) = 0
      | Some c \<Rightarrow> count_list (built t) (ax, ay) = 1
                 \<and> c = Chunk ax ay (tileSize_t t) 16 (noise_t t)"
      using assms unfolding cache_ok_def by blast
    show "case chunks (snd (getChunk t cx cy)) (chunk_key ax ay) of
        None \<Rightarrow> count_list (built (snd (getChunk t cx cy))) (ax, ay) = 0
      | Some c \<Rightarrow> count_list (built (snd (getChunk t cx cy))) (ax, ay) = 1
                 \<and> c = Chunk ax ay (tileSize_t (snd (getChunk t cx cy))) 16
                         (noise_t (snd (getChunk t cx cy)))"
    proof (cases "(ax, ay) = (cx, cy)")
      case True
      with None old show ?thesis by (simp add: getChunk_miss)
    next
      case False
      then have "chunk_key ax ay \<noteq> chunk_key cx cy" by (simp add: chunk_key_inj)
      with False old show ?thesis by (auto simp: getChunk_miss None split: option.splits)
    qed
  qed
qed


lemma getValue_state:
  "snd (getValue t x y)
     = snd (getChunk t (chunk_index x (chunkSize t)) (chunk_index y (chunkSize t)))"
  by (simp add: getValue_def Let_def split: prod.split)

lemma isPositionWalkable_state: "snd (isPositionWalkable t x y) = snd (getValue t x y)"
  by (simp add: isPositionWalkable_def split: prod.split sum.split)

lemma fetch_all_preserves:
  assumes step: "\<And>s cx cy. P s \<Longrightarrow> P (snd (getChunk s cx cy))"
  shows "P t \<Longrightarrow> P (fold (\<lambda>(cx, cy) s. snd (getChunk s cx cy)) cs t)"
  by (induction cs arbitrary: t) (auto intro: step)

lemma exec_preserves:
  assumes step: "\<And>s cx cy. P s \<Longrightarrow> P (snd (getChunk s cx cy))" and "P t"
  shows "P (exec a t)"
proof (cases a)
  case (GetChunk cx cy)
  then show ?thesis using assms by simp
next
  case (GetValue x y)
  then show ?thesis using assms by (simp add: getValue_state)
next
  case (IsPositionWalkable x y)
  then show ?thesis using assms by (simp add: isPositionWalkable_state getValue_state)
next
  case (Draw camX camY)
  then show ?thesis
    using fetch_all_preserves [of P, OF step assms(2)] by (simp add: draw_def Let_def)
qed

lemma run_preserves:
  assumes step: "\<And>s cx cy. P s \<Longrightarrow> P (snd (getChunk s cx cy))"
  shows "P t \<Longrightarrow> P (run ops t)"
  unfolding run_def
  by (induction ops arbitrary: t) (auto intro: exec_preserves [of P, OF step])

lemma run_cache_ok: "cache_ok (run ops (Terrain ts cs p))"
  by (rule run_preserves [of cache_ok, OF getChunk_cache_ok cache_ok_Terrain])

lemma run_params:
  "tileSize_t (run ops (Terrain ts cs p)) = ts \<and> chunkSize (run ops (Terrain ts cs p)) = cs
   \<and> noise_t (run ops (Terrain ts cs p)) = p"
  by (rule run_preserves [of "\<lambda>s. tileSize_t s = ts \<and> chunkSize s = cs \<and> noise_t s = p"])
     (simp_all add: getChunk_params Terrain_def)

lemma run_keeps: "chunks t k = Some c \<Longrightarrow> chunks (run ops t) k = Some c"
  by (rule run_preserves [of "\<lambda>s. chunks s k = Some c"]) (simp_all add: getChunk_keeps)

lemma run_keeps_ok: "cache_ok t \<Longrightarrow> cache_ok (run ops t)"
  by (rule run_preserves [of cache_ok, OF getChunk_cache_ok])

lemma cache_ok_count:
  assumes "cache_ok t" and "chunks t (chunk_key cx cy) = Some c"
  shows "count_list (built t) (cx, cy) = 1 \<and> c = Chunk cx cy (tileSize_t t) 16 (noise_t t)"
proof -
  have "case chunks t (chunk_key cx cy) of
        None \<Rightarrow> count_list (built t) (cx, cy) = 0
      | Some c \<Rightarrow> count_list (built t) (cx, cy) = 1
                 \<and> c = Chunk cx cy (tileSize_t t) 16 (noise_t t)"
    using assms(1) unfolding cache_ok_def by (elim allE)
  then show ?thesis by (simp add: assms(2))
qed

lemma run_replicate_cached:
  "0 < N \<Longrightarrow> chunks (run (replicate N (GetChunk cx cy)) t) (chunk_key cx cy) \<noteq> None"
proof -
  assume "0 < N"
  then obtain M where N: "N = Suc M" by (cases N) auto
  have "chunks (exec (GetChunk cx cy) t) (chunk_key cx cy) = Some (fst (getChunk t cx cy))"
    by (simp add: getChunk_cached)
  then have "chunks (run (replicate M (GetChunk cx cy)) (exec (GetChunk cx cy) t)) (chunk_key cx cy)
     = Some (fst (getChunk t cx cy))" by (rule run_keeps)
  then show ?thesis unfolding N by (simp add: run_def)
qed

text \<open>
  C1: on a Terrain reached from construction by any sequence of public calls, after
  \<open>N \<ge> 1\<close> calls of \<^verbatim>\<open>getChunk(chunkX, chunkY)\<close> the Chunk constructor has run exactly once
  for that pair; after a first call has returned the chunk \<open>c\<close>, every later call for
  the pair, whatever calls lie in between, returns \<open>c\<close> and leaves the state as it is,
  and \<open>c\<close> is the chunk built for the pair; and no call replaces or drops a cached chunk.
\<close>

theorem chunk_built_once:
  assumes "cs \<noteq> 0"
  shows "let t0 = run ops0 (Terrain ts cs p) in
     (1 \<le> N \<longrightarrow> count_list (built (run (replicate N (GetChunk cx cy)) t0)) (cx, cy) = 1)
     \<and> (let (c, t1) = getChunk t0 cx cy; t2 = run ops t1
        in getChunk t2 cx cy = (c, t2)
           \<and> count_list (built t2) (cx, cy) = 1
           \<and> c = Chunk cx cy ts 16 p)
     \<and> (\<forall>k c. chunks t0 k = Some c \<longrightarrow> chunks (run ops t0) k = Some c)"
proof -
  define t0 where "t0 = run ops0 (Terrain ts cs p)"
  have ok0: "cache_ok t0" unfolding t0_def by (rule run_cache_ok)
  have par0: "tileSize_t t0 = ts" "noise_t t0 = p" unfolding t0_def using run_params by blast+
  have A: "1 \<le> N \<longrightarrow> count_list (built (run (replicate N (GetChunk cx cy)) t0)) (cx, cy) = 1"
  proof
    assume N: "1 \<le> N"
    let ?t = "run (replicate N (GetChunk cx cy)) t0"
    have ok: "cache_ok ?t" using ok0 by (rule run_keeps_ok)
    have "chunks ?t (chunk_key cx cy) \<noteq> None"
      using run_replicate_cached [of N cx cy t0] N by simp
    then obtain c where "chunks ?t (chunk_key cx cy) = Some c" by blast
    then show "count_list (built ?t) (cx, cy) = 1" using cache_ok_count [OF ok] by blast
  qed
  define c where "c = fst (getChunk t0 cx cy)"
  define t1 where "t1 = snd (getChunk t0 cx cy)"
  define t2 where "t2 = run ops t1"
  have ok1: "cache_ok t1" unfolding t1_def using ok0 by (rule getChunk_cache_ok)
  have par1: "tileSize_t t1 = ts" "noise_t t1 = p"
    unfolding t1_def by (simp_all add: getChunk_params par0)
  have in1: "chunks t1 (chunk_key cx cy) = Some c" unfolding t1_def c_def by (rule getChunk_cached)
  have in2: "chunks t2 (chunk_key cx cy) = Some c" unfolding t2_def using in1 by (rule run_keeps)
  have ok2: "cache_ok t2" unfolding t2_def using ok1 by (rule run_keeps_ok)
  have B1: "getChunk t2 cx cy = (c, t2)" using in2 by (rule getChunk_hit)
  have B2: "count_list (built t2) (cx, cy) = 1" using cache_ok_count [OF ok2 in2] by blast
  have B3: "c = Chunk cx cy ts 16 p" using cache_ok_count [OF ok1 in1] par1 by simp
  have B: "(let (c, t1) = getChunk t0 cx cy; t2 = run ops t1
        in getChunk t2 cx cy = (c, t2)
           \<and> count_list (built t2) (cx, cy) = 1
           \<and> c = Chunk cx cy ts 16 p)"
    unfolding Let_def case_prod_unfold
    using B1 B2 B3 unfolding t2_def t1_def c_def by (intro conjI)
  have C: "\<forall>k c. chunks t0 k = Some c \<longrightarrow> chunks (run ops t0) k = Some c"
    by (intro allI impI) (rule run_keeps)
  have "(1 \<le> N \<longrightarrow> count_list (built (run (replicate N (GetChunk cx cy)) t0)) (cx, cy) = 1)
     \<and> (let (c, t1) = getChunk t0 cx cy; t2 = run ops t1
        in getChunk t2 cx cy = (c, t2)
           \<and> count_list (built t2) (cx, cy) = 1
           \<and> c = Chunk cx cy ts 16 p)
     \<and> (\<forall>k c. chunks t0 k = Some c \<longrightarrow> chunks (run ops t0) k = Some c)"
    by (rule conjI [OF A conjI [OF B C]])
  then show ?thesis unfolding t0_def by (simp add: Let_def)
qed


theorem chunk_built_once_witness:
  "(16::int) \<noteq> 0
   \<and> count_list
        (built (run (replicate 3 (GetChunk 2 (- 1)))
                  (run [Draw 0 0, GetValue 40 (- 7)] (Terrain 20 16 (replicate 512 0)))))
        (2, - 1) = 1"
proof -
  have h: "(16::int) \<noteq> 0" and n: "(1::nat) \<le> 3" by simp_all
  have "1 \<le> (3::nat) \<longrightarrow> count_list
        (built (run (replicate 3 (GetChunk 2 (- 1)))
                  (run [Draw 0 0, GetValue 40 (- 7)] (Terrain 20 16 (replicate 512 0)))))
        (2, - 1) = 1"
    using chunk_built_once [where cs = 16 and N = 3 and cx = 2 and cy = "- 1" and ts = 20
        and p = "replicate 512 0" and ops0 = "[Draw 0 0, GetValue 40 (- 7)]" and ops = "[]", OF h]
    unfolding Let_def by (rule conjunct1)
  then show ?thesis using h n by blast
qed

section \<open>Which calls create chunks\<close>

lemma view_coords_set:
  "set (view_coords a b) = {(cx, cy). \<bar>cx - a\<bar> \<le> 3 \<and> \<bar>cy - b\<bar> \<le> 3}"
proof (rule set_eqI)
  fix q :: "int \<times> int"
  obtain cx cy where q: "q = (cx, cy)" by (cases q)
  have "(cx, cy) \<in> set (view_coords a b)
        \<longleftrightarrow> (\<exists>dy\<in>{- 3..3}. \<exists>dx\<in>{- 3..3}. cx = a + dx \<and> cy = b + dy)"
    unfolding view_coords_def by (auto simp del: upto_rec_numeral)
  also have "\<dots> \<longleftrightarrow> \<bar>cx - a\<bar> \<le> 3 \<and> \<bar>cy - b\<bar> \<le> 3"
  proof
    assume "\<exists>dy\<in>{- 3..3}. \<exists>dx\<in>{- 3..3}. cx = a + dx \<and> cy = b + dy"
    then show "\<bar>cx - a\<bar> \<le> 3 \<and> \<bar>cy - b\<bar> \<le> 3" by auto
  next
    assume h: "\<bar>cx - a\<bar> \<le> 3 \<and> \<bar>cy - b\<bar> \<le> 3"
    then have "cy - b \<in> {- 3..3}" and "cx - a \<in> {- 3..3}" by auto
    moreover have "cx = a + (cx - a) \<and> cy = b + (cy - b)" by simp
    ultimately show "\<exists>dy\<in>{- 3..3}. \<exists>dx\<in>{- 3..3}. cx = a + dx \<and> cy = b + dy" by blast
  qed
  finally show "q \<in> set (view_coords a b)
     \<longleftrightarrow> q \<in> {(cx, cy). \<bar>cx - a\<bar> \<le> 3 \<and> \<bar>cy - b\<bar> \<le> 3}"
    unfolding q by simp
qed

lemma cache_ok_built:
  assumes "cache_ok t"
  shows "(cx, cy) \<in> set (built t) \<longleftrightarrow> chunks t (chunk_key cx cy) \<noteq> None"
proof -
  have "case chunks t (chunk_key cx cy) of
        None \<Rightarrow> count_list (built t) (cx, cy) = 0
      | Some c \<Rightarrow> count_list (built t) (cx, cy) = 1
                 \<and> c = Chunk cx cy (tileSize_t t) 16 (noise_t t)"
    using assms unfolding cache_ok_def by (elim allE)
  moreover have "count_list (built t) (cx, cy) \<noteq> 0 \<longleftrightarrow> (cx, cy) \<in> set (built t)"
    by (simp add: count_list_0_iff)
  ultimately show ?thesis
    by (cases "chunks t (chunk_key cx cy)") auto
qed

lemma getChunk_built:
  assumes "cache_ok t"
  shows "set (built (snd (getChunk t cx cy))) = insert (cx, cy) (set (built t))"
proof (cases "chunks t (chunk_key cx cy)")
  case None
  then show ?thesis by (simp add: getChunk_miss)
next
  case (Some c)
  then have "(cx, cy) \<in> set (built t)" using cache_ok_built [OF assms, of cx cy] by simp
  with Some show ?thesis by (auto simp: getChunk_hit)
qed

lemma fetch_all_built:
  "cache_ok t \<Longrightarrow>
   set (built (fold (\<lambda>(cx, cy) s. snd (getChunk s cx cy)) cs t)) = set (built t) \<union> set cs"
proof (induction cs arbitrary: t)
  case Nil
  then show ?case by simp
next
  case (Cons q cs)
  obtain cx cy where q: "q = (cx, cy)" by (cases q)
  have ok: "cache_ok (snd (getChunk t cx cy))" using Cons.prems by (rule getChunk_cache_ok)
  show ?case
    using Cons.IH [OF ok] getChunk_built [OF Cons.prems, of cx cy] by (simp add: q)
qed

lemma draw_built:
  "cache_ok t \<Longrightarrow>
   set (built (draw t camX camY))
     = set (built t) \<union> set (view_coords (chunk_index camX (chunkSize t)) (chunk_index camY (chunkSize t)))"
  by (simp add: draw_def Let_def fetch_all_built)

lemma getValue_built:
  "cache_ok t \<Longrightarrow>
   set (built (snd (getValue t x y)))
     = insert (chunk_index x (chunkSize t), chunk_index y (chunkSize t)) (set (built t))"
  by (simp add: getValue_state getChunk_built)

text \<open>
  C3, amended: on a Terrain reached from construction by any sequence of public calls,
  \<^verbatim>\<open>draw\<close> visits exactly the chunk coordinates within Chebyshev distance 3 of the
  camera's chunk and the chunks created so far are afterwards those created before
  together with the visited ones; \<^verbatim>\<open>getValue\<close> and \<^verbatim>\<open>isPositionWalkable\<close> add the chunk that
  contains the queried coordinate, wherever it lies, and no other; \<^verbatim>\<open>getChunk\<close> adds the
  requested one; and a chunk is cached exactly when it has been created.
\<close>

theorem chunk_creation:
  assumes "cs \<noteq> 0"
  shows "let t = run ops (Terrain ts cs p) in
     set (view_coords a b) = {(cx, cy). \<bar>cx - a\<bar> \<le> 3 \<and> \<bar>cy - b\<bar> \<le> 3}
     \<and> set (built (draw t camX camY))
         = set (built t) \<union> set (view_coords (chunk_index camX cs) (chunk_index camY cs))
     \<and> set (built (snd (getValue t x y)))
         = insert (chunk_index x cs, chunk_index y cs) (set (built t))
     \<and> set (built (snd (isPositionWalkable t x y)))
         = insert (chunk_index x cs, chunk_index y cs) (set (built t))
     \<and> set (built (snd (getChunk t cx cy))) = insert (cx, cy) (set (built t))
     \<and> (\<forall>ax ay. chunks t (chunk_key ax ay) \<noteq> None \<longleftrightarrow> (ax, ay) \<in> set (built t))"
proof -
  define t where "t = run ops (Terrain ts cs p)"
  have ok: "cache_ok t" unfolding t_def by (rule run_cache_ok)
  have cs: "chunkSize t = cs" unfolding t_def using run_params by blast
  have a: "set (view_coords a b) = {(cx, cy). \<bar>cx - a\<bar> \<le> 3 \<and> \<bar>cy - b\<bar> \<le> 3}"
    by (rule view_coords_set)
  have b: "set (built (draw t camX camY))
         = set (built t) \<union> set (view_coords (chunk_index camX cs) (chunk_index camY cs))"
    using draw_built [OF ok] cs by simp
  have c: "set (built (snd (getValue t x y)))
         = insert (chunk_index x cs, chunk_index y cs) (set (built t))"
    using getValue_built [OF ok] cs by simp
  have d: "set (built (snd (isPositionWalkable t x y)))
         = insert (chunk_index x cs, chunk_index y cs) (set (built t))"
    using c by (simp add: isPositionWalkable_state)
  have e: "set (built (snd (getChunk t cx cy))) = insert (cx, cy) (set (built t))"
    using ok by (rule getChunk_built)
  have f: "\<forall>ax ay. chunks t (chunk_key ax ay) \<noteq> None \<longleftrightarrow> (ax, ay) \<in> set (built t)"
    using cache_ok_built [OF ok] by simp
  have "set (view_coords a b) = {(cx, cy). \<bar>cx - a\<bar> \<le> 3 \<and> \<bar>cy - b\<bar> \<le> 3}
     \<and> set (built (draw t camX camY))
         = set (built t) \<union> set (view_coords (chunk_index camX cs) (chunk_index camY cs))
     \<and> set (built (snd (getValue t x y)))
         = insert (chunk_index x cs, chunk_index y cs) (set (built t))
     \<and> set (built (snd (isPositionWalkable t x y)))
         = insert (chunk_index x cs, chunk_index y cs) (set (built t))
     \<and> set (built (snd (getChunk t cx cy))) = insert (cx, cy) (set (built t))
     \<and> (\<forall>ax ay. chunks t (chunk_key ax ay) \<noteq> None \<longleftrightarrow> (ax, ay) \<in> set (built t))"
    by (rule conjI [OF a conjI [OF b conjI [OF c conjI [OF d conjI [OF e f]]]]])
  then show ?thesis unfolding t_def by (simp add: Let_def)
qed

theorem chunk_creation_witness:
  "(16::int) \<noteq> 0
   \<and> set (built (snd (getValue (run [Draw 0 0] (Terrain 20 16 (replicate 512 0))) 1000 (- 3))))
      = insert (chunk_index 1000 16, chunk_index (- 3) 16)
          (set (built (run [Draw 0 0] (Terrain 20 16 (replicate 512 0)))))"
proof -
  have h: "(16::int) \<noteq> 0" by simp
  note t = chunk_creation [where cs = 16 and ops = "[Draw 0 0]" and ts = 20
      and p = "replicate 512 0" and x = 1000 and y = "- 3", OF h, unfolded Let_def]
  from t [THEN conjunct2, THEN conjunct2, THEN conjunct1] h show ?thesis by (rule conjI [rotated])
qed

text \<open>
  C3, as stated, fails: on a fresh Terrain, with no \<^verbatim>\<open>draw\<close> call at all,
  \<^verbatim>\<open>getValue(1000, 1000)\<close> creates the chunk (62, 62), which is outside the view window
  of a camera at the origin.
\<close>

theorem getValue_creates_chunk:
  "built (Terrain 20 16 (replicate 512 0)) = []
   \<and> built (snd (getValue (Terrain 20 16 (replicate 512 0)) 1000 1000)) = [(62, 62)]
   \<and> (62, 62) \<notin> set (view_coords 0 0)"
  by (simp add: getValue_state chunk_index_def js_quot_def dbl_underflow_def getChunk_miss
      Terrain_def view_coords_set)

section \<open>Reads outside the grid\<close>

text \<open>
  C5: with a chunk size of 32 the local row index 20 is outside the 16 rows that
  \<^verbatim>\<open>getChunk\<close> builds, and \<^verbatim>\<open>getValue(0, 20)\<close> throws a TypeError instead of returning -1;
  a column outside an existing row, as in \<^verbatim>\<open>getValue(20, 0)\<close>, does give -1.
\<close>

theorem getValue_missing_row:
  "local_index 20 32 = 20 \<and> local_index 0 32 = 0
   \<and> length (tiles (fst (getChunk (Terrain 20 32 (replicate 512 0)) 0 0))) = 16
   \<and> fst (getValue (Terrain 20 32 (replicate 512 0)) 0 20) = Inl TypeError
   \<and> fst (getValue (Terrain 20 32 (replicate 512 0)) 20 0) = Inr (Fin (- 1))"
  using length_generateTiles_row [of 0 16 0 0 "replicate 512 0"]
  by (simp add: getValue_def chunk_index_def js_quot_def dbl_underflow_def local_index_def
      js_rem_def getChunk_miss Terrain_def Chunk_def tile_at_def length_generateTiles Let_def)


section \<open>Heights of moderate coordinates are finite\<close>

text \<open>
  A noise value is bounded, so with 8 octaves, lacunarity 2.1 and gain 0.45 nothing
  overflows as long as the scaled world coordinate times \<open>2.1\<^sup>7\<close> stays in range.
\<close>

lemma abs_mult_le:
  fixes a b :: real
  shows "\<bar>a\<bar> \<le> A \<Longrightarrow> \<bar>b\<bar> \<le> B \<Longrightarrow> \<bar>a * b\<bar> \<le> A * B"
  by (simp add: abs_mult mult_mono)

lemma fade_bound:
  assumes "0 \<le> t" and "t \<le> 1"
  shows "\<bar>fade t\<bar> \<le> 31"
proof -
  have t: "\<bar>t\<bar> \<le> 1" using assms by simp
  have "\<bar>t * 6 - 15\<bar> \<le> 21" using assms by simp
  with t have "\<bar>t * (t * 6 - 15)\<bar> \<le> 1 * 21" by (rule abs_mult_le)
  then have a: "\<bar>t * (t * 6 - 15) + 10\<bar> \<le> 31" by linarith
  have "\<bar>t * t\<bar> \<le> 1 * 1" using t t by (rule abs_mult_le)
  then have "\<bar>t * t * t\<bar> \<le> 1 * 1 * 1" using t by (intro abs_mult_le) simp_all
  then have "\<bar>t * t * t * (t * (t * 6 - 15) + 10)\<bar> \<le> 1 * 1 * 1 * 31"
    using a by (rule abs_mult_le)
  then show ?thesis by (simp add: fade_def)
qed

lemma grad_bound: "\<bar>grad h a b\<bar> \<le> \<bar>a\<bar> + \<bar>b\<bar>"
  by (auto simp: grad_def Let_def)

lemma lerp_bound:
  assumes "\<bar>t\<bar> \<le> T" and "\<bar>a\<bar> \<le> A" and "\<bar>b\<bar> \<le> A"
  shows "\<bar>lerp t a b\<bar> \<le> A + T * (2 * A)"
proof -
  have "\<bar>b - a\<bar> \<le> 2 * A" using assms(2,3) by linarith
  with assms(1) have "\<bar>t * (b - a)\<bar> \<le> T * (2 * A)" by (rule abs_mult_le)
  with assms(2) show ?thesis unfolding lerp_def by linarith
qed

lemma noise_bound: "\<bar>noise p x y\<bar> \<le> 10000"
proof -
  define x' where "x' = x - of_int \<lfloor>x\<rfloor>"
  define y' where "y' = y - of_int \<lfloor>y\<rfloor>"
  have x': "0 \<le> x'" "x' \<le> 1" and y': "0 \<le> y'" "y' \<le> 1"
    unfolding x'_def y'_def by linarith+
  have u: "\<bar>fade x'\<bar> \<le> 31" and v: "\<bar>fade y'\<bar> \<le> 31"
    using x' y' by (simp_all add: fade_bound)
  have g: "\<bar>grad h a b\<bar> \<le> 2" if "\<bar>a\<bar> \<le> 1" and "\<bar>b\<bar> \<le> 1" for h a b
    using grad_bound [of h a b] that by linarith
  have g1: "\<bar>grad h1 x' y'\<bar> \<le> 2" and g2: "\<bar>grad h2 (x' - 1) y'\<bar> \<le> 2"
    and g3: "\<bar>grad h3 x' (y' - 1)\<bar> \<le> 2" and g4: "\<bar>grad h4 (x' - 1) (y' - 1)\<bar> \<le> 2"
    for h1 h2 h3 h4
    using x' y' by (auto intro!: g)
  have l1: "\<bar>lerp (fade x') (grad h1 x' y') (grad h2 (x' - 1) y')\<bar> \<le> 126"
    and l2: "\<bar>lerp (fade x') (grad h3 x' (y' - 1)) (grad h4 (x' - 1) (y' - 1))\<bar> \<le> 126"
    for h1 h2 h3 h4
    using lerp_bound [OF u g1 g2, of h1 h2] lerp_bound [OF u g3 g4, of h3 h4] by simp_all
  have "\<bar>lerp (fade y') (lerp (fade x') (grad h1 x' y') (grad h2 (x' - 1) y'))
          (lerp (fade x') (grad h3 x' (y' - 1)) (grad h4 (x' - 1) (y' - 1)))\<bar> \<le> 126 + 31 * (2 * 126)"
    for h1 h2 h3 h4
    by (rule lerp_bound [OF v l1 l2])
  then show ?thesis
    unfolding noise_def Let_def x'_def [symmetric] y'_def [symmetric]
    by (rule order_trans) simp
qed

lemma lacunarity_powers:
  assumes "k \<le> 7"
  shows "(21 / 10 :: real) ^ k \<le> 1000"
proof -
  have "(21 / 10 :: real) ^ k \<le> (21 / 10) ^ 7" using assms by (intro power_increasing) simp_all
  also have "\<dots> \<le> 1000" by (simp add: power_divide)
  finally show ?thesis .
qed

lemma frequency_21: "k \<le> 7 \<Longrightarrow> frequency_at (21 / 10) k = Fin ((21 / 10) ^ k)"
proof (rule power_at_Fin, intro allI impI)
  fix j assume "k \<le> 7" "j \<le> k"
  then have "(21 / 10 :: real) ^ j \<le> 1000" by (intro lacunarity_powers) simp
  then show "\<bar>21 / 10 :: real\<bar> ^ j < dbl_overflow"
    using dbl_overflow_big by simp
qed

lemma tile_sample:
  assumes "\<bar>X\<bar> \<le> 10 ^ 302" and "\<bar>Y\<bar> \<le> 10 ^ 302" and "k \<le> 7"
  shows "sample_at (js_noise p) (Fin X) (Fin Y) (21 / 10) k
           = Fin (noise p (X * (21 / 10) ^ k) (Y * (21 / 10) ^ k))"
proof -
  have f: "\<bar>(21 / 10 :: real) ^ k\<bar> \<le> 1000" using lacunarity_powers [OF assms(3)] by simp
  have "\<bar>X * (21 / 10) ^ k\<bar> \<le> 10 ^ 302 * 1000" using assms(1) f by (rule abs_mult_le)
  then have a: "\<bar>X * (21 / 10) ^ k\<bar> < dbl_overflow" using dbl_overflow_big by simp
  have "\<bar>Y * (21 / 10) ^ k\<bar> \<le> 10 ^ 302 * 1000" using assms(2) f by (rule abs_mult_le)
  then have b: "\<bar>Y * (21 / 10) ^ k\<bar> < dbl_overflow" using dbl_overflow_big by simp
  show ?thesis
    by (simp add: sample_at_def frequency_21 [OF assms(3)] js_fin_Fin [OF a] js_fin_Fin [OF b])
qed

lemma million_lt_overflow: "1000000 < dbl_overflow"
  by (simp add: dbl_overflow_def)

lemma gain_sum_le: "(\<Sum>k<8. (45 / 100 :: real) ^ k) \<le> 8"
proof -
  have "(\<Sum>k<8. (45 / 100 :: real) ^ k) \<le> (\<Sum>k<(8::nat). 1)"
    by (intro sum_mono power_le_one) simp_all
  then show ?thesis by simp
qed

lemma fbm_tile_finite:
  assumes "\<bar>X\<bar> \<le> 10 ^ 302" and "\<bar>Y\<bar> \<le> 10 ^ 302"
  shows "\<exists>r. fbm (Fin X) (Fin Y) (js_noise p) 8 (21 / 10) (45 / 100) = Fin r"
proof -
  let ?s = "\<lambda>k. noise p (X * (21 / 10) ^ k) (Y * (21 / 10) ^ k)"
  have samp: "\<forall>k<8. sample_at (js_noise p) (Fin X) (Fin Y) (21 / 10) k = Fin (?s k)
                \<and> \<bar>?s k\<bar> \<le> 10000"
    using tile_sample [OF assms] noise_bound by simp
  have m0: "0 \<le> (\<Sum>k<8. (45 / 100 :: real) ^ k)" by (intro sum_nonneg) simp
  have finM: "(\<Sum>k<8. (45 / 100 :: real) ^ k) < dbl_overflow"
    using gain_sum_le million_lt_overflow by linarith
  have "10000 * (\<Sum>k<8. (45 / 100 :: real) ^ k) \<le> 10000 * 8"
    using gain_sum_le by (intro mult_left_mono) simp_all
  then have finC: "10000 * (\<Sum>k<8. (45 / 100 :: real) ^ k) < dbl_overflow"
    using million_lt_overflow by linarith
  have "fbm (Fin X) (Fin Y) (js_noise p) (int 8) (21 / 10) (45 / 100)
      = Fin ((\<Sum>k<8. ?s k * (45 / 100) ^ k) / (\<Sum>k<8. (45 / 100) ^ k))"
    by (rule fbm_finite_value(2) [OF _ _ _ samp finC finM]) simp_all
  then show ?thesis by auto
qed


lemma world_coord_Fin:
  assumes "\<bar>of_int c :: real\<bar> \<le> 10 ^ 300 + 1" and "0 \<le> i" and "i < 16"
  shows "\<exists>w. world_coord c 16 i = Fin w \<and> \<bar>w\<bar> \<le> 10 ^ 302"
proof -
  have i: "\<bar>of_int i :: real\<bar> \<le> 16" using assms(2,3) by simp
  have c0: "\<bar>of_int c :: real\<bar> < dbl_overflow"
    using assms(1) dbl_overflow_big by simp
  have "\<bar>of_int c * 16 :: real\<bar> \<le> (10 ^ 300 + 1) * 16" using assms(1) by simp
  then have c1: "\<bar>of_int c * 16 :: real\<bar> < dbl_overflow" using dbl_overflow_big by simp
  have w: "\<bar>of_int c * 16 + of_int i :: real\<bar> \<le> 10 ^ 302"
    using assms(1) i by simp
  then have c2: "\<bar>of_int c * 16 + of_int i :: real\<bar> < dbl_overflow"
    using dbl_overflow_big by simp
  have s: "js_fin 16 = Fin 16" by (simp add: js_fin_small)
  have "world_coord c 16 i = Fin (of_int c * 16 + of_int i)"
    by (simp add: world_coord_def js_fin_Fin [OF c0] s js_fin_Fin [OF c1] js_fin_Fin [OF c2])
  with w show ?thesis by blast
qed

lemma scaled_coord:
  assumes "\<bar>w\<bar> \<le> 10 ^ 302"
  shows "\<exists>X. js_mul (Fin w) (Fin (3 / 100)) = Fin X \<and> \<bar>X\<bar> \<le> 10 ^ 302"
proof -
  have a: "\<bar>w * (3 / 100)\<bar> \<le> 10 ^ 302" using assms by simp
  then have "\<bar>w * (3 / 100)\<bar> < dbl_overflow" using dbl_overflow_big by simp
  then have "js_mul (Fin w) (Fin (3 / 100)) = Fin (w * (3 / 100))" by (simp add: js_fin_Fin)
  with a show ?thesis by blast
qed

lemma generateTiles_finite:
  assumes "\<bar>of_int cx :: real\<bar> \<le> 10 ^ 300 + 1" and "\<bar>of_int cy :: real\<bar> \<le> 10 ^ 300 + 1"
    and "row \<in> set (generateTiles cx cy 16 p)" and "v \<in> set row"
  shows "\<exists>r. v = Fin r"
proof -
  from assms(3,4) obtain a b where a: "0 \<le> a" "a < 16" and b: "0 \<le> b" "b < 16"
    and v: "v = fbm (js_mul (world_coord cx 16 a) (Fin (3 / 100)))
                 (js_mul (world_coord cy 16 b) (Fin (3 / 100))) (js_noise p)
                 8 (21 / 10) (45 / 100)"
    unfolding generateTiles_def Let_def by auto
  obtain wx where wx: "world_coord cx 16 a = Fin wx" "\<bar>wx\<bar> \<le> 10 ^ 302"
    using world_coord_Fin [OF assms(1) a] by blast
  obtain wy where wy: "world_coord cy 16 b = Fin wy" "\<bar>wy\<bar> \<le> 10 ^ 302"
    using world_coord_Fin [OF assms(2) b] by blast
  obtain X where X: "js_mul (Fin wx) (Fin (3 / 100)) = Fin X" "\<bar>X\<bar> \<le> 10 ^ 302"
    using scaled_coord [OF wx(2)] by blast
  obtain Y where Y: "js_mul (Fin wy) (Fin (3 / 100)) = Fin Y" "\<bar>Y\<bar> \<le> 10 ^ 302"
    using scaled_coord [OF wy(2)] by blast
  show ?thesis unfolding v wx(1) wy(1) X(1) Y(1) by (rule fbm_tile_finite [OF X(2) Y(2)])
qed

lemma tile_at_finite:
  assumes "\<bar>of_int cx :: real\<bar> \<le> 10 ^ 300 + 1" and "\<bar>of_int cy :: real\<bar> \<le> 10 ^ 300 + 1"
    and "tile_at (generateTiles cx cy 16 p) ly lx = Inr v"
  shows "\<exists>r. v = Fin r"
proof (cases "0 \<le> ly \<and> ly < int (length (generateTiles cx cy 16 p))")
  case False
  with assms(3) show ?thesis by (simp add: tile_at_def)
next
  case row: True
  let ?row = "generateTiles cx cy 16 p ! nat ly"
  have "nat ly < length (generateTiles cx cy 16 p)" using row by linarith
  then have rin: "?row \<in> set (generateTiles cx cy 16 p)" by (rule nth_mem)
  show ?thesis
  proof (cases "0 \<le> lx \<and> lx < int (length ?row)")
    case True
    then have "nat lx < length ?row" by linarith
    then have "?row ! nat lx \<in> set ?row" by (rule nth_mem)
    moreover have "v = ?row ! nat lx" using assms(3) row True by (simp add: tile_at_def Let_def)
    ultimately show ?thesis using generateTiles_finite [OF assms(1,2) rin] by blast
  next
    case False
    with assms(3) row have "v = Fin (- 1)" by (simp add: tile_at_def Let_def)
    then show ?thesis by blast
  qed
qed

lemma getChunk_result:
  assumes "cache_ok t"
  shows "fst (getChunk t cx cy) = Chunk cx cy (tileSize_t t) 16 (noise_t t)"
proof -
  have "cache_ok (snd (getChunk t cx cy))" using assms by (rule getChunk_cache_ok)
  from cache_ok_count [OF this getChunk_cached] show ?thesis by (simp add: getChunk_params)
qed

lemma getValue_result:
  assumes "cache_ok t"
  shows "fst (getValue t x y)
     = tile_at (generateTiles (chunk_index x (chunkSize t)) (chunk_index y (chunkSize t)) 16 (noise_t t))
         (local_index y (chunkSize t)) (local_index x (chunkSize t))"
proof -
  have "fst (getValue t x y)
     = tile_at (tiles (fst (getChunk t (chunk_index x (chunkSize t)) (chunk_index y (chunkSize t)))))
         (local_index y (chunkSize t)) (local_index x (chunkSize t))"
    by (simp add: getValue_def Let_def split: prod.split)
  then show ?thesis by (simp add: getChunk_result [OF assms] Chunk_def)
qed

lemma getValue_finite:
  assumes "cache_ok t" and "chunkSize t \<noteq> 0" and "\<bar>x\<bar> \<le> 10 ^ 300" and "\<bar>y\<bar> \<le> 10 ^ 300"
    and "fst (getValue t x y) = Inr v"
  shows "\<exists>r. v = Fin r"
proof -
  have cx: "\<bar>of_int (chunk_index x (chunkSize t)) :: real\<bar> \<le> 10 ^ 300 + 1"
    using chunk_index_bound [OF assms(2), of x] assms(3) by linarith
  have cy: "\<bar>of_int (chunk_index y (chunkSize t)) :: real\<bar> \<le> 10 ^ 300 + 1"
    using chunk_index_bound [OF assms(2), of y] assms(4) by linarith
  show ?thesis
    using assms(5) unfolding getValue_result [OF assms(1)] by (rule tile_at_finite [OF cx cy])
qed

lemma getValue_16_Inr:
  assumes "cache_ok t" and "chunkSize t = 16"
  shows "\<exists>v. fst (getValue t x y) = Inr v"
proof -
  have lx: "0 \<le> local_index x 16" "local_index x 16 < 16"
    and ly: "0 \<le> local_index y 16" "local_index y 16 < 16"
    by (simp_all add: local_index_mod)
  show ?thesis
    unfolding getValue_result [OF assms(1)] assms(2)
    using lx ly
    by (simp add: tile_at_def length_generateTiles length_generateTiles_row Let_def)
qed

lemma walkable_iff_not_Water:
  "js_ge (js_norm (Fin r)) (43 / 100) \<longleftrightarrow> getColor (Fin r) \<noteq> Water"
proof -
  have "getColor (Fin r) = Water \<longleftrightarrow> (r + 1) / 2 < 43 / 100"
    by (rule getColor_bands [of r, THEN conjunct1])
  moreover have "js_ge (js_norm (Fin r)) (43 / 100) \<longleftrightarrow> \<not> (r + 1) / 2 < 43 / 100"
    by (simp only: js_norm.simps js_ge.simps not_less)
  ultimately show ?thesis by blast
qed

lemma isPositionWalkable_unfold:
  "isPositionWalkable t x y
     = (case fst (getValue t x y) of
          Inl e \<Rightarrow> Inl e
        | Inr v \<Rightarrow> Inr (js_ge (js_norm v) (43 / 100)), snd (getValue t x y))"
  by (simp add: isPositionWalkable_def split: prod.split sum.split)


lemma walkable_non_NaN:
  assumes "v \<noteq> NaN"
  shows "js_ge (js_norm v) (43 / 100) \<longleftrightarrow> getColor v \<noteq> Water"
proof (cases v)
  case (Fin r)
  then show ?thesis using walkable_iff_not_Water [of r] by simp
next
  case PInf
  then show ?thesis by (simp add: getColor_def colour_defs)
next
  case NInf
  then show ?thesis by (simp add: getColor_def)
next
  case NaN
  with assms show ?thesis by simp
qed


section \<open>Heights of far coordinates are NaN\<close>

text \<open>
  One NaN sample makes the result of \<^verbatim>\<open>fbm\<close> NaN. At a world coordinate near \<open>2\<^sup>1\<^sup>0\<^sup>2\<^sup>3\<close>
  the sample position of the seventh octave overflows to infinity and the noise there
  is NaN.
\<close>

lemma js_add_NaN: "js_add v NaN = NaN"
  by (cases v) simp_all

lemma fbm_loop_NaN_val: "fst (fbm_loop nz x y n lac g i NaN a f m) = NaN"
proof (induction nz x y n lac g i "NaN" a f m rule: fbm_loop.induct)
  case (1 nz x y octaves lacunarity gain i amplitude frequency maxValue)
  show ?case
  proof (cases "i < octaves")
    case True
    then show ?thesis using "1.hyps" by (subst fbm_loop.simps) simp
  next
    case False
    then show ?thesis by (subst fbm_loop.simps) simp
  qed
qed

lemma fbm_loop_NaN_sample:
  assumes "k < n" and "sample_at nz x y lac k = NaN"
  shows "i \<le> k \<Longrightarrow>
    fst (fbm_loop nz x y (int n) lac g (int i) v a (frequency_at lac i) m) = NaN"
proof (induction "k - i" arbitrary: i v a m)
  case 0
  then have i: "i = k" by simp
  have "nz (js_mul x (frequency_at lac k)) (js_mul y (frequency_at lac k)) = NaN"
    using assms(2) by (simp add: sample_at_def)
  then show ?case
    unfolding i using assms(1)
    by (subst fbm_loop.simps) (simp add: js_add_NaN fbm_loop_NaN_val)
next
  case (Suc d)
  then have lt: "i < k" and d: "d = k - Suc i" by simp_all
  have "fst (fbm_loop nz x y (int n) lac g (int (Suc i)) v' a' (frequency_at lac (Suc i)) m') = NaN"
    for v' a' m'
    using Suc.hyps(1) [of "Suc i"] d lt by simp
  then show ?case
    using lt assms(1) by (subst fbm_loop.simps) (simp add: add.commute)
qed

lemma fbm_NaN_sample:
  assumes "k < n" and "sample_at nz x y lac k = NaN"
  shows "fbm x y nz (int n) lac g = NaN"
proof -
  have "fst (fbm_loop nz x y (int n) lac g (int 0) (Fin 0) (Fin 1) (frequency_at lac 0) (Fin 0)) = NaN"
    by (rule fbm_loop_NaN_sample [OF assms]) simp
  moreover obtain a b where
    ab: "fbm_loop nz x y (int n) lac g 0 (Fin 0) (Fin 1) (Fin 1) (Fin 0) = (a, b)"
    by (cases "fbm_loop nz x y (int n) lac g 0 (Fin 0) (Fin 1) (Fin 1) (Fin 0)")
  ultimately have "a = NaN" by simp
  then show ?thesis by (simp add: fbm_def ab)
qed

lemma tile_at_generateTiles:
  assumes "0 \<le> ly" and "ly < sz" and "0 \<le> lx" and "lx < sz"
  shows "tile_at (generateTiles cx cy sz p) ly lx
     = Inr (fbm (js_mul (world_coord cx sz lx) (Fin (3 / 100)))
              (js_mul (world_coord cy sz ly) (Fin (3 / 100))) (js_noise p) 8 (21 / 10) (45 / 100))"
  using assms
  by (simp add: tile_at_def length_generateTiles length_generateTiles_row generateTiles_nth)

lemma far_tile_NaN:
  "fbm (js_mul (world_coord (2 ^ 1019) 16 0) (Fin (3 / 100)))
       (js_mul (world_coord 0 16 0) (Fin (3 / 100))) (js_noise p) 8 (21 / 10) (45 / 100) = NaN"
proof -
  have w: "world_coord (2 ^ 1019) 16 0 = Fin (2 ^ 1023)" "world_coord 0 16 0 = Fin 0"
    by (simp_all add: world_coord_def js_fin_def dbl_overflow_def)
  have X: "js_mul (Fin (2 ^ 1023)) (Fin (3 / 100)) = Fin (2 ^ 1023 * (3 / 100))"
    "js_mul (Fin 0) (Fin (3 / 100)) = Fin 0"
    by (simp_all add: js_fin_def dbl_overflow_def)
  have "js_mul (Fin (2 ^ 1023 * (3 / 100))) (Fin ((21 / 10) ^ 6)) = PInf"
    by (simp add: js_fin_def dbl_overflow_def power_divide)
  then have "sample_at (js_noise p) (Fin (2 ^ 1023 * (3 / 100))) (Fin 0) (21 / 10) 6 = NaN"
    by (simp add: sample_at_def frequency_21)
  then have "fbm (Fin (2 ^ 1023 * (3 / 100))) (Fin 0) (js_noise p) (int 8) (21 / 10) (45 / 100) = NaN"
    by (intro fbm_NaN_sample [of 6]) simp_all
  then show ?thesis unfolding w X by simp
qed

section \<open>Walkability\<close>

text \<open>
  C9, as stated, fails: on a fresh Terrain with chunk size 16 the height at
  \<open>(2\<^sup>1\<^sup>0\<^sup>2\<^sup>3, 0)\<close> is NaN; \<^verbatim>\<open>isPositionWalkable\<close> returns false there, while
  \<^verbatim>\<open>getColor(NaN)\<close> is Snow, which is not Water.
\<close>

theorem walkable_disagrees_at_NaN:
  "fst (getValue (Terrain 20 16 (replicate 512 0)) (2 ^ 1023) 0) = Inr NaN
   \<and> fst (isPositionWalkable (Terrain 20 16 (replicate 512 0)) (2 ^ 1023) 0) = Inr False
   \<and> getColor NaN = Snow \<and> Snow \<noteq> Water"
proof -
  let ?t = "Terrain 20 16 (replicate 512 0)"
  have ci: "chunk_index (2 ^ 1023) 16 = 2 ^ 1019" "chunk_index 0 16 = 0"
    by (simp_all add: chunk_index_def js_quot_def dbl_underflow_def)
  have li: "local_index (2 ^ 1023) 16 = 0" "local_index 0 16 = 0"
    by (simp_all add: local_index_def js_rem_def)
  have par: "chunkSize ?t = 16" "noise_t ?t = replicate 512 0" by (simp_all add: Terrain_def)
  have "fst (getValue ?t (2 ^ 1023) 0)
      = tile_at (generateTiles (2 ^ 1019) 0 16 (replicate 512 0)) 0 0"
    unfolding getValue_result [OF cache_ok_Terrain] par ci li ..
  also have "\<dots> = Inr (fbm (js_mul (world_coord (2 ^ 1019) 16 0) (Fin (3 / 100)))
              (js_mul (world_coord 0 16 0) (Fin (3 / 100))) (js_noise (replicate 512 0))
              8 (21 / 10) (45 / 100))"
    by (rule tile_at_generateTiles) simp_all
  also have "\<dots> = Inr NaN" by (simp only: far_tile_NaN)
  finally have a: "fst (getValue ?t (2 ^ 1023) 0) = Inr NaN" .
  then have b: "fst (isPositionWalkable ?t (2 ^ 1023) 0) = Inr False"
    by (simp add: isPositionWalkable_unfold)
  have c: "getColor NaN = Snow" by (simp add: getColor_def)
  have d: "Snow \<noteq> Water" by (simp add: colour_defs)
  show ?thesis by (rule conjI [OF a conjI [OF b conjI [OF c d]]])
qed

text \<open>
  C9, amended: on a Terrain reached from construction by any sequence of public calls,
  \<^verbatim>\<open>isPositionWalkable(x, y)\<close> ends in the state of \<^verbatim>\<open>getValue(x, y)\<close>, throws when it
  throws, and otherwise returns \<open>(value + 1) / 2 \<ge> 0.43\<close>; this is true exactly when
  \<^verbatim>\<open>getColor\<close> of the value is not Water provided the value is not NaN; for a NaN value
  it is false although the class is not Water; and for \<open>|x|, |y| \<le> 10\<^sup>3\<^sup>0\<^sup>0\<close> the value
  is a finite number.
\<close>

theorem walkable_agrees_unless_NaN:
  assumes "cs \<noteq> 0"
  shows "let t = run ops (Terrain ts cs p) in
     (\<forall>v. fst (getValue t x y) = Inr v \<longrightarrow>
          fst (isPositionWalkable t x y) = Inr (js_ge (js_norm v) (43 / 100)))
     \<and> (\<forall>v. fst (getValue t x y) = Inr v \<and> v \<noteq> NaN \<longrightarrow>
          fst (isPositionWalkable t x y) = Inr (getColor v \<noteq> Water))
     \<and> (fst (getValue t x y) = Inr NaN \<longrightarrow>
          fst (isPositionWalkable t x y) = Inr False \<and> getColor NaN \<noteq> Water)
     \<and> (\<forall>e. fst (getValue t x y) = Inl e \<longrightarrow> fst (isPositionWalkable t x y) = Inl e)
     \<and> snd (isPositionWalkable t x y) = snd (getValue t x y)
     \<and> (\<bar>x\<bar> \<le> 10 ^ 300 \<and> \<bar>y\<bar> \<le> 10 ^ 300 \<longrightarrow>
          (\<forall>v. fst (getValue t x y) = Inr v \<longrightarrow>
             (\<exists>r. v = Fin r
                \<and> fst (isPositionWalkable t x y) = Inr (43 / 100 \<le> (r + 1) / 2))))"
proof -
  define t where "t = run ops (Terrain ts cs p)"
  have ok: "cache_ok t" unfolding t_def by (rule run_cache_ok)
  have cs: "chunkSize t \<noteq> 0" unfolding t_def using run_params [of ops ts cs p] assms by simp
  have a: "\<forall>v. fst (getValue t x y) = Inr v \<longrightarrow>
          fst (isPositionWalkable t x y) = Inr (js_ge (js_norm v) (43 / 100))"
    by (simp add: isPositionWalkable_unfold)
  have b: "\<forall>v. fst (getValue t x y) = Inr v \<and> v \<noteq> NaN \<longrightarrow>
          fst (isPositionWalkable t x y) = Inr (getColor v \<noteq> Water)"
    by (simp add: isPositionWalkable_unfold walkable_non_NaN)
  have c: "fst (getValue t x y) = Inr NaN \<longrightarrow>
          fst (isPositionWalkable t x y) = Inr False \<and> getColor NaN \<noteq> Water"
    by (simp add: isPositionWalkable_unfold getColor_def colour_defs)
  have d: "\<forall>e. fst (getValue t x y) = Inl e \<longrightarrow> fst (isPositionWalkable t x y) = Inl e"
    by (simp add: isPositionWalkable_unfold)
  have e: "snd (isPositionWalkable t x y) = snd (getValue t x y)"
    by (rule isPositionWalkable_state)
  have f: "\<bar>x\<bar> \<le> 10 ^ 300 \<and> \<bar>y\<bar> \<le> 10 ^ 300 \<longrightarrow>
          (\<forall>v. fst (getValue t x y) = Inr v \<longrightarrow>
             (\<exists>r. v = Fin r
                \<and> fst (isPositionWalkable t x y) = Inr (43 / 100 \<le> (r + 1) / 2)))"
  proof (intro impI allI)
    fix v assume b: "\<bar>x\<bar> \<le> 10 ^ 300 \<and> \<bar>y\<bar> \<le> 10 ^ 300" and v: "fst (getValue t x y) = Inr v"
    from b have bx: "\<bar>x\<bar> \<le> 10 ^ 300" and by': "\<bar>y\<bar> \<le> 10 ^ 300" by simp_all
    obtain r where r: "v = Fin r" using getValue_finite [OF ok cs bx by' v] by blast
    have "fst (isPositionWalkable t x y) = Inr (43 / 100 \<le> (r + 1) / 2)"
      using v r by (simp add: isPositionWalkable_unfold)
    with r show "\<exists>r. v = Fin r
                \<and> fst (isPositionWalkable t x y) = Inr (43 / 100 \<le> (r + 1) / 2)" by blast
  qed
  show ?thesis
    unfolding Let_def t_def [symmetric]
    by (rule conjI [OF a conjI [OF b conjI [OF c conjI [OF d conjI [OF e f]]]]])
qed

theorem walkable_agrees_unless_NaN_witness:
  "(16::int) \<noteq> 0 \<and> \<bar>- 1 / 2 :: real\<bar> \<le> 10 ^ 300 \<and> \<bar>40 :: real\<bar> \<le> 10 ^ 300
   \<and> (\<exists>r. fst (getValue (run [Draw 0 0] (Terrain 20 16 (replicate 512 0))) (- 1 / 2) 40)
            = Inr (Fin r)
          \<and> fst (isPositionWalkable (run [Draw 0 0] (Terrain 20 16 (replicate 512 0))) (- 1 / 2) 40)
            = Inr (43 / 100 \<le> (r + 1) / 2))"
proof -
  let ?t = "run [Draw 0 0] (Terrain 20 16 (replicate 512 0))"
  have h: "(16::int) \<noteq> 0" and bx: "\<bar>- 1 / 2 :: real\<bar> \<le> 10 ^ 300"
    and by': "\<bar>40 :: real\<bar> \<le> 10 ^ 300" by simp_all
  note t = walkable_agrees_unless_NaN [where cs = 16 and ops = "[Draw 0 0]" and ts = 20
      and p = "replicate 512 0" and x = "- 1 / 2" and y = 40, OF h, unfolded Let_def]
  note fin = t [THEN conjunct2, THEN conjunct2, THEN conjunct2, THEN conjunct2, THEN conjunct2,
      THEN mp, OF conjI [OF bx by']]
  have "chunkSize ?t = 16" using run_params [of "[Draw 0 0]" 20 16 "replicate 512 0"] by simp
  then obtain v where v: "fst (getValue ?t (- 1 / 2) 40) = Inr v"
    using getValue_16_Inr [OF run_cache_ok] by blast
  from fin [THEN spec, THEN mp, OF v] obtain r where "v = Fin r"
    and "fst (isPositionWalkable ?t (- 1 / 2) 40) = Inr (43 / 100 \<le> (r + 1) / 2)" by blast
  with v have e: "\<exists>r. fst (getValue ?t (- 1 / 2) 40) = Inr (Fin r)
      \<and> fst (isPositionWalkable ?t (- 1 / 2) 40) = Inr (43 / 100 \<le> (r + 1) / 2)" by blast
  show ?thesis by (rule conjI [OF h conjI [OF bx conjI [OF by' e]]])
qed


section \<open>Decomposition and stored heights\<close>

text \<open>
  With chunk size 16 the chunk index and the local index rebuild the floor of the
  coordinate, except for a negative coordinate so small that its quotient by 16
  underflows to zero.
\<close>

lemma decomposition_16:
  assumes "0 \<le> x \<or> x < - (16 * dbl_underflow)"
  shows "chunk_index x 16 * 16 + local_index x 16 = \<lfloor>x\<rfloor>
     \<and> 0 \<le> local_index x 16 \<and> local_index x 16 < 16"
proof -
  have "chunk_index x 16 = \<lfloor>x\<rfloor> div 16"
    using chunk_index_div [of 16 x] assms by simp
  moreover have "local_index x 16 = \<lfloor>x\<rfloor> mod 16" by (simp add: local_index_mod)
  ultimately show ?thesis by simp
qed

text \<open>
  C2: two inputs where the decomposition of \<^verbatim>\<open>getValue\<close> does not do what the claim
  says. With chunk size 32, \<^verbatim>\<open>getValue(40, 0)\<close> decomposes 40 into chunk 1 and local
  index 8, but the chunk that \<^verbatim>\<open>getChunk\<close> builds has 16 tiles per side, so the cell
  read was generated for world tile \<open>1 * 16 + 8 = 24\<close>, not 40. With chunk size 16 and
  \<open>x = -2\<^sup>-\<^sup>1\<^sup>0\<^sup>7\<^sup>4\<close>, the smallest negative double, \<open>x / 16\<close> underflows to zero:
  the chunk index is 0 and the local index 15, which rebuild 15 and not
  \<open>\<lfloor>x\<rfloor> = -1\<close>.
\<close>

theorem decomposition_mismatch:
  "chunk_index 40 32 = 1 \<and> local_index 40 32 = 8 \<and> \<lfloor>40 :: real\<rfloor> = 40
   \<and> fst (getValue (Terrain 20 32 (replicate 512 0)) 40 0)
       = Inr (fbm (js_mul (world_coord 1 16 8) (Fin (3 / 100)))
                (js_mul (world_coord 0 16 0) (Fin (3 / 100))) (js_noise (replicate 512 0))
                8 (21 / 10) (45 / 100))
   \<and> world_coord 1 16 8 = Fin 24
   \<and> chunk_index (- (1 / 2 ^ 1074)) 16 = 0 \<and> local_index (- (1 / 2 ^ 1074)) 16 = 15
   \<and> \<lfloor>- (1 / 2 ^ 1074) :: real\<rfloor> = - 1"
proof -
  let ?t = "Terrain 20 32 (replicate 512 0)"
  have ci: "chunk_index 40 32 = 1" "chunk_index 0 32 = 0"
    by (simp_all add: chunk_index_def js_quot_def dbl_underflow_def)
  have li: "local_index 40 32 = 8" "local_index 0 32 = 0"
    by (simp_all add: local_index_def js_rem_def)
  have fl: "\<lfloor>40 :: real\<rfloor> = 40" by simp
  have par: "chunkSize ?t = 32" "noise_t ?t = replicate 512 0" by (simp_all add: Terrain_def)
  have "fst (getValue ?t 40 0) = tile_at (generateTiles 1 0 16 (replicate 512 0)) 0 8"
    unfolding getValue_result [OF cache_ok_Terrain] par ci li ..
  also have "\<dots> = Inr (fbm (js_mul (world_coord 1 16 8) (Fin (3 / 100)))
                (js_mul (world_coord 0 16 0) (Fin (3 / 100))) (js_noise (replicate 512 0))
                8 (21 / 10) (45 / 100))"
    by (rule tile_at_generateTiles) simp_all
  finally have gv: "fst (getValue ?t 40 0)
       = Inr (fbm (js_mul (world_coord 1 16 8) (Fin (3 / 100)))
                (js_mul (world_coord 0 16 0) (Fin (3 / 100))) (js_noise (replicate 512 0))
                8 (21 / 10) (45 / 100))" .
  have wc: "world_coord 1 16 8 = Fin 24"
    by (simp add: world_coord_def js_fin_def dbl_overflow_def)
  have t1: "chunk_index (- (1 / 2 ^ 1074)) 16 = 0"
    by (simp add: chunk_index_def js_quot_def dbl_underflow_def)
  have t3: "\<lfloor>- (1 / 2 ^ 1074) :: real\<rfloor> = - 1"
    by (simp add: floor_eq_iff)
  have t2: "local_index (- (1 / 2 ^ 1074)) 16 = 15"
    unfolding local_index_def t3 by (simp add: js_rem_def)
  show ?thesis
    by (rule conjI [OF ci(1) conjI [OF li(1) conjI [OF fl conjI [OF gv conjI [OF wc
          conjI [OF t1 conjI [OF t2 t3]]]]]]])
qed

section \<open>The table after construction\<close>

text \<open>
  C4, amended: after construction the table has 512 entries, each an integer in
  \<open>[0, 256)\<close>; entry \<open>i\<close> of the first half is \<open>\<lfloor>256 r\<^sub>i\<rfloor>\<close> for the \<open>i\<close>-th random draw
  \<open>r\<^sub>i\<close>, independently of the other entries; and entries 256..511 repeat entries
  0..255; and no sequence of calls on a Terrain that holds the table changes it.
\<close>

theorem table_shape:
  assumes "length rs = 256" and "\<forall>r\<in>set rs. 0 \<le> r \<and> r < 1"
  shows "length (ImprovedNoise rs) = 512
     \<and> (\<forall>i<512. 0 \<le> ImprovedNoise rs ! i \<and> ImprovedNoise rs ! i < 256)
     \<and> (\<forall>i<256. ImprovedNoise rs ! i = \<lfloor>rs ! i * 256\<rfloor>)
     \<and> (\<forall>i<256. ImprovedNoise rs ! (256 + i) = ImprovedNoise rs ! i)
     \<and> noise_t (run ops (Terrain ts cs (ImprovedNoise rs))) = ImprovedNoise rs"
  using table_entries [OF assms] run_params [of ops ts cs "ImprovedNoise rs"] by blast

theorem table_shape_witness:
  "length (replicate 256 (1 / 2 :: real)) = 256
   \<and> length (ImprovedNoise (replicate 256 (1 / 2))) = 512
   \<and> ImprovedNoise (replicate 256 (1 / 2)) ! 7 = 128
   \<and> ImprovedNoise (replicate 256 (1 / 2)) ! (256 + 7) = ImprovedNoise (replicate 256 (1 / 2)) ! 7"
proof -
  have h1: "length (replicate 256 (1 / 2 :: real)) = 256" by simp
  have h2: "\<forall>r\<in>set (replicate 256 (1 / 2 :: real)). 0 \<le> r \<and> r < 1" by simp
  note t = table_shape [OF h1 h2]
  have a: "length (ImprovedNoise (replicate 256 (1 / 2))) = 512" by (rule t [THEN conjunct1])
  have b: "ImprovedNoise (replicate 256 (1 / 2)) ! 7 = 128"
    using t [THEN conjunct2, THEN conjunct2, THEN conjunct1, rule_format, of 7] by simp
  have c: "ImprovedNoise (replicate 256 (1 / 2)) ! (256 + 7) = ImprovedNoise (replicate 256 (1 / 2)) ! 7"
    using t [THEN conjunct2, THEN conjunct2, THEN conjunct2, THEN conjunct1, rule_format, of 7]
    by simp
  show ?thesis by (rule conjI [OF h1 conjI [OF a conjI [OF b c]]])
qed

end
